theory Spec2Isabelle
  imports Main
begin

section \<open>Text and regular expressions\<close>

text \<open>
  The controller \<^verbatim>\<open>tofuInjector.ts\<close> works on JavaScript strings. They are modelled as
  \<^typ>\<open>string\<close>, one \<^typ>\<open>char\<close> per code unit below 256. On that range the class
  \<^verbatim>\<open>\s\<close> of a JavaScript regular expression holds TAB, LF, VT, FF, CR, SPACE and the
  no-break space, and \<^verbatim>\<open>\d\<close> holds the ten ASCII digits.
\<close>

definition is_space :: "char \<Rightarrow> bool" where
  "is_space c = (c = CHR 0x09 \<or> c = CHR 0x0A \<or> c = CHR 0x0B \<or> c = CHR 0x0C \<or> c = CHR 0x0D
                 \<or> c = CHR 0x20 \<or> c = CHR 0xA0)"

definition is_digit :: "char \<Rightarrow> bool" where
  "is_digit c = ((48::nat) \<le> of_char c \<and> of_char c \<le> (57::nat))"

text \<open>
  The three patterns of \<^verbatim>\<open>parseTofuSummary\<close> are sequences of literals, \<^verbatim>\<open>\s+\<close> and
  capturing groups \<^verbatim>\<open>(\d+)\<close>.
\<close>

datatype re_item = Lit string | Spaces | Digits

text \<open>
  \<open>plus_splits p s\<close> lists the ways \<^verbatim>\<open>p+\<close> can consume a prefix of \<open>s\<close>, as (consumed, rest),
  in the order a backtracking matcher tries them: greedy, longest first.
\<close>

fun plus_splits :: "(char \<Rightarrow> bool) \<Rightarrow> string \<Rightarrow> (string \<times> string) list" where
  "plus_splits p [] = []"
| "plus_splits p (c # cs) =
     (if p c then map (\<lambda>(a, r). (c # a, r)) (plus_splits p cs) @ [([c], cs)] else [])"

fun first_some :: "('a \<Rightarrow> 'b option) \<Rightarrow> 'a list \<Rightarrow> 'b option" where
  "first_some f [] = None"
| "first_some f (x # xs) = (case f x of Some y \<Rightarrow> Some y | None \<Rightarrow> first_some f xs)"

text \<open>A match anchored at the start of the input; the result is the list of captured groups.\<close>

fun re_match_here :: "re_item list \<Rightarrow> string \<Rightarrow> string list option" where
  "re_match_here [] s = Some []"
| "re_match_here (Lit l # ts) s =
     (if take (length l) s = l then re_match_here ts (drop (length l) s) else None)"
| "re_match_here (Spaces # ts) s =
     first_some (\<lambda>(a, r). re_match_here ts r) (plus_splits is_space s)"
| "re_match_here (Digits # ts) s =
     first_some (\<lambda>(a, r). map_option (Cons a) (re_match_here ts r)) (plus_splits is_digit s)"

text \<open>\<^verbatim>\<open>line.match(re)\<close> for a pattern without the global flag: the leftmost match.\<close>

fun re_search :: "re_item list \<Rightarrow> string \<Rightarrow> string list option" where
  "re_search re [] = re_match_here re []"
| "re_search re (c # cs) =
     (case re_match_here re (c # cs) of Some m \<Rightarrow> Some m | None \<Rightarrow> re_search re cs)"

definition planRe :: "re_item list" where
  "planRe = [Lit ''Plan:'', Spaces, Digits, Spaces, Lit ''to add,'', Spaces, Digits, Spaces,
             Lit ''to change,'', Spaces, Digits, Spaces, Lit ''to destroy'']"

definition applyRe :: "re_item list" where
  "applyRe = [Lit ''Apply complete! Resources:'', Spaces, Digits, Spaces, Lit ''added,'', Spaces,
              Digits, Spaces, Lit ''changed,'', Spaces, Digits, Spaces, Lit ''destroyed'']"

definition destroyRe :: "re_item list" where
  "destroyRe = [Lit ''Destroy complete! Resources:'', Spaces, Digits, Spaces, Lit ''destroyed'']"

text \<open>
  \<^verbatim>\<open>parseInt(s, 10)\<close> on a captured group, which is a non-empty run of digits. The value is
  the decimal value of the run; the rounding of a JavaScript number above \<open>2^53\<close> is not
  modelled.
\<close>

definition digit_val :: "char \<Rightarrow> nat" where
  "digit_val c = of_char c - (48::nat)"

definition parseInt10 :: "string \<Rightarrow> nat" where
  "parseInt10 s = foldl (\<lambda>a c. 10 * a + digit_val c) 0 s"

text \<open>\<^verbatim>\<open>stdout.split("\n")\<close>: the pieces between line feeds; never the empty list.\<close>

fun split_nl :: "string \<Rightarrow> string list" where
  "split_nl [] = [[]]"
| "split_nl (c # cs) =
     (if c = CHR 0x0A then [] # split_nl cs
      else (case split_nl cs of [] \<Rightarrow> [[c]] | l # ls \<Rightarrow> (c # l) # ls))"

section \<open>The output summarizer\<close>

text \<open>
  The type \<^verbatim>\<open>CommandResult["summary"]\<close>: an object whose six fields are all optional, or
  \<^verbatim>\<open>null\<close> (here \<open>None\<close>).
\<close>

record tofu_summary =
  toAdd :: "nat option"
  toChange :: "nat option"
  toDestroy :: "nat option"
  added :: "nat option"
  changed :: "nat option"
  destroyed :: "nat option"

definition no_fields :: tofu_summary where
  "no_fields = \<lparr>toAdd = None, toChange = None, toDestroy = None,
                 added = None, changed = None, destroyed = None\<rparr>"

definition plan_summary :: "string list \<Rightarrow> tofu_summary" where
  "plan_summary m = no_fields\<lparr>toAdd := Some (parseInt10 (m ! 0)),
                               toChange := Some (parseInt10 (m ! 1)),
                               toDestroy := Some (parseInt10 (m ! 2))\<rparr>"

definition apply_summary :: "string list \<Rightarrow> tofu_summary" where
  "apply_summary m = no_fields\<lparr>added := Some (parseInt10 (m ! 0)),
                                changed := Some (parseInt10 (m ! 1)),
                                destroyed := Some (parseInt10 (m ! 2))\<rparr>"

definition destroy_summary :: "string list \<Rightarrow> tofu_summary" where
  "destroy_summary m = no_fields\<lparr>destroyed := Some (parseInt10 (m ! 0))\<rparr>"

text \<open>
  The loop of \<^verbatim>\<open>parseTofuSummary\<close> over the lines: each line is tried against the plan,
  the apply and the destroy pattern in that order, and the first match sets the summary and
  breaks out of the loop.
\<close>

fun scan_lines :: "string list \<Rightarrow> tofu_summary option" where
  "scan_lines [] = None"
| "scan_lines (line # rest) =
     (case re_search planRe line of
        Some planMatch \<Rightarrow> Some (plan_summary planMatch)
      | None \<Rightarrow>
          (case re_search applyRe line of
             Some applyMatch \<Rightarrow> Some (apply_summary applyMatch)
           | None \<Rightarrow>
               (case re_search destroyRe line of
                  Some destroyMatch \<Rightarrow> Some (destroy_summary destroyMatch)
                | None \<Rightarrow> scan_lines rest)))"

definition parseTofuSummary :: "string \<Rightarrow> tofu_summary option" where
  "parseTofuSummary text = scan_lines (split_nl text)"

section \<open>The data model\<close>

text \<open>
  The documents of the two collections the controller reads and writes. The Mongoose schemas
  are not part of the sources: the fields are the ones the controller names, a step kind
  and a step status are the string constants it writes, and a time is a number of
  milliseconds.
\<close>

datatype step_kind = Init | Plan | Apply | Destroy

datatype step_status = Successful | Failed | Cancelled

record deployment_step =
  step :: step_kind
  stepStatus :: step_status
  message :: string
  stepLogFileContent :: string
  timestamp :: "nat option"

record deployment =
  deploymentId :: string
  projectId :: string
  spaceId :: string
  deploymentName :: string
  steps :: "deployment_step list"
  startedAt :: nat

record project =
  proj_projectId :: string
  proj_projectName :: string

text \<open>The type \<^verbatim>\<open>CommandResult\<close>; \<open>exitCode\<close> is \<open>None\<close> for \<^verbatim>\<open>null\<close>.\<close>

record CommandResult =
  exitCode :: "int option"
  stdout :: string
  stderr :: string
  combined :: string
  logFileContent :: string
  summary :: "tofu_summary option"

section \<open>The world outside the controller\<close>

text \<open>
  A child process is seen through the events it emits, each with its arrival time in
  milliseconds after the spawn: chunks of its two output streams, \<^verbatim>\<open>close\<close> with the exit
  code (\<open>None\<close> when a signal ended it), and \<^verbatim>\<open>error\<close>. \<^verbatim>\<open>spawn\<close> can also throw at once.
\<close>

datatype proc_event = StdoutData string | StderrData string | Close "int option" | ProcError string

datatype spawned = SpawnThrows string | Spawned "(nat \<times> proc_event) list"

datatype repo_error = NotFound

text \<open>
  What the controller takes from its environment: the project collection, the variable
  \<^verbatim>\<open>DOCKER_IMAGE_NAME\<close>, the helpers \<^verbatim>\<open>getContainerIdsByImage\<close> and
  \<^verbatim>\<open>generateDeploymentIdentifiers\<close> (not in the sources, taken as given functions),
  \<^verbatim>\<open>spawn("docker", args)\<close> as a function of the arguments, the clock (as the ISO string of
  \<^verbatim>\<open>new Date()\<close> and as a number), the timestamp the deployment schema gives a step that is
  pushed without one, and the message of an error the repository throws.
\<close>

record world =
  projects :: "project list"
  dockerImageName :: "string option"
  getContainerIdsByImage :: "string \<Rightarrow> string list"
  generateDeploymentIdentifiers :: "string \<Rightarrow> string \<Rightarrow> string \<times> string"
  spawn :: "string list \<Rightarrow> spawned"
  nowIso :: string
  now :: nat
  defaultTimestamp :: "nat option"
  errorMessage :: "repo_error \<Rightarrow> string"

section \<open>The command runner\<close>

text \<open>The character class \<^verbatim>\<open>["\s'$`\\]\<close> and the replacement of each match by a backslash and
  the match itself (\<^verbatim>\<open>.replace(/(["\s'$`\\])/g, "\\$1")\<close>).\<close>

definition is_special :: "char \<Rightarrow> bool" where
  "is_special c = (c = CHR 0x22 \<or> is_space c \<or> c = CHR 0x27 \<or> c = CHR 0x24 \<or> c = CHR 0x60
                   \<or> c = CHR 0x5C)"

fun escapePath :: "string \<Rightarrow> string" where
  "escapePath [] = []"
| "escapePath (c # cs) =
     (if is_special c then CHR 0x5C # c # escapePath cs else c # escapePath cs)"

text \<open>\<^verbatim>\<open>Array.prototype.join\<close>.\<close>

fun join :: "string \<Rightarrow> string list \<Rightarrow> string" where
  "join sep [] = []"
| "join sep [x] = x"
| "join sep (x # y # ys) = x @ sep @ join sep (y # ys)"

definition wrappedCmd :: "string \<Rightarrow> string list \<Rightarrow> string" where
  "wrappedCmd workspacePath commands =
     ''cd '' @ escapePath workspacePath @ '' && '' @ join '' && '' commands @ '' 2>&1''"

text \<open>\<^verbatim>\<open>xs.splice(-3, 0, ...ins)\<close>: insert before the last three elements.\<close>

definition splice_last3 :: "'a list \<Rightarrow> 'a list \<Rightarrow> 'a list" where
  "splice_last3 xs ins = take (length xs - 3) xs @ ins @ drop (length xs - 3) xs"

text \<open>The log file path: empty unless logging is enabled and the path has no space.\<close>

definition logFilePathOf :: "world \<Rightarrow> string \<Rightarrow> bool \<Rightarrow> string" where
  "logFilePathOf w workspacePath enableLogging =
     (if enableLogging \<and> CHR 0x20 \<notin> set workspacePath then
        (let timestamp = take 14 (filter (\<lambda>c. c \<noteq> CHR ''-'' \<and> c \<noteq> CHR '':'' \<and> c \<noteq> CHR ''T''
                                              \<and> c \<noteq> CHR ''.'') (nowIso w));
             logFileName = ''tofu_'' @ timestamp @ ''.log''
         in workspacePath @ ''/'' @ logFileName)
      else [])"

definition dockerArgs :: "world \<Rightarrow> string \<Rightarrow> string \<Rightarrow> string list \<Rightarrow> bool \<Rightarrow> string list" where
  "dockerArgs w containerId workspacePath commands enableLogging =
     (let args = [''exec'', ''-i'', ''-e'', ''TF_IN_AUTOMATION=true'', ''-e'', ''FORCE_COLOR=0'',
                  containerId, ''bash'', ''-c'', wrappedCmd workspacePath commands]
      in if enableLogging \<and> CHR 0x20 \<notin> set workspacePath then
           splice_last3 args [''-e'', ''TF_LOG=INFO'', ''-e'',
                              ''TF_LOG_PATH='' @ logFilePathOf w workspacePath enableLogging]
         else args)"

text \<open>
  The handlers of the primary process, run over its events in arrival order: the two
  \<^verbatim>\<open>data\<close> handlers append to their buffer; \<^verbatim>\<open>close\<close> and \<^verbatim>\<open>error\<close> settle the promise. A
  process that emits neither leaves the promise pending.
\<close>

datatype settled = Closed "int option" string string | Errored string | Pending

fun run_proc :: "string \<Rightarrow> string \<Rightarrow> proc_event list \<Rightarrow> settled" where
  "run_proc stdoutBuffer stderrBuffer [] = Pending"
| "run_proc stdoutBuffer stderrBuffer (StdoutData d # es) = run_proc (stdoutBuffer @ d) stderrBuffer es"
| "run_proc stdoutBuffer stderrBuffer (StderrData d # es) = run_proc stdoutBuffer (stderrBuffer @ d) es"
| "run_proc stdoutBuffer stderrBuffer (Close code # es) = Closed code stdoutBuffer stderrBuffer"
| "run_proc stdoutBuffer stderrBuffer (ProcError e # es) = Errored e"

text \<open>
  The read-back of the log file. Only the \<^verbatim>\<open>stdout\<close> of the second process has a listener;
  \<^verbatim>\<open>close\<close> copies the buffer into \<^verbatim>\<open>logFileContent\<close> and \<^verbatim>\<open>error\<close> leaves it empty; both
  end the wait. The result is \<open>None\<close> when the wait never ends.
\<close>

fun read_log :: "string \<Rightarrow> proc_event list \<Rightarrow> string option" where
  "read_log logBuffer [] = None"
| "read_log logBuffer (StdoutData d # es) = read_log (logBuffer @ d) es"
| "read_log logBuffer (StderrData d # es) = read_log logBuffer es"
| "read_log logBuffer (Close code # es) = Some logBuffer"
| "read_log logBuffer (ProcError e # es) = Some []"

text \<open>
  The timer of 3000 ms calls \<^verbatim>\<open>logReadProc.kill()\<close> unless \<^verbatim>\<open>close\<close> or \<^verbatim>\<open>error\<close> has cleared
  it before. The call sends a signal and changes no variable of the handlers.
\<close>

fun kill_called :: "(nat \<times> proc_event) list \<Rightarrow> bool" where
  "kill_called [] = True"
| "kill_called ((t, ev) # es) =
     (if 3000 \<le> t then True
      else (case ev of Close code \<Rightarrow> False | ProcError e \<Rightarrow> False
            | StdoutData d \<Rightarrow> kill_called es | StderrData d \<Rightarrow> kill_called es))"

definition logReadArgs :: "string \<Rightarrow> string \<Rightarrow> string list" where
  "logReadArgs containerId logFilePath =
     [''exec'', ''-i'', containerId, ''cat'', escapePath logFilePath]"

definition readLogFile :: "world \<Rightarrow> string \<Rightarrow> string \<Rightarrow> string option" where
  "readLogFile w containerId logFilePath =
     (case spawn w (logReadArgs containerId logFilePath) of
        SpawnThrows err \<Rightarrow> Some []
      | Spawned tr \<Rightarrow> read_log [] (map snd tr))"

text \<open>
  \<^verbatim>\<open>runCommands\<close>: \<open>None\<close> when the promise never settles, \<open>Some (Inl err)\<close> when it rejects,
  \<open>Some (Inr result)\<close> when it resolves.
\<close>

definition runCommands ::
    "world \<Rightarrow> string \<Rightarrow> string \<Rightarrow> string list \<Rightarrow> bool \<Rightarrow> (string + CommandResult) option" where
  "runCommands w containerId workspacePath commands enableLogging =
     (let logFilePath = logFilePathOf w workspacePath enableLogging in
      case spawn w (dockerArgs w containerId workspacePath commands enableLogging) of
        SpawnThrows err \<Rightarrow> Some (Inl err)
      | Spawned tr \<Rightarrow>
          (case run_proc [] [] (map snd tr) of
             Pending \<Rightarrow> None
           | Errored err \<Rightarrow> Some (Inl err)
           | Closed code stdoutBuffer stderrBuffer \<Rightarrow>
               (case (if enableLogging \<and> logFilePath \<noteq> []
                      then readLogFile w containerId logFilePath else Some []) of
                  None \<Rightarrow> None
                | Some content \<Rightarrow>
                    Some (Inr \<lparr>exitCode = code, stdout = stdoutBuffer, stderr = stderrBuffer,
                               combined = stdoutBuffer @ stderrBuffer,
                               logFileContent = content,
                               summary = parseTofuSummary stdoutBuffer\<rparr>))))"

section \<open>The deployment collection\<close>

text \<open>
  The collection is the list of its documents, in insertion order. \<^verbatim>\<open>findOne\<close> returns the
  first document that matches, \<^verbatim>\<open>updateOne\<close> changes the first document that matches and
  reports \<^verbatim>\<open>matchedCount\<close>.
\<close>

definition findOne :: "('d \<Rightarrow> bool) \<Rightarrow> 'd list \<Rightarrow> 'd option" where
  "findOne q ds = find q ds"

fun updateOne :: "('d \<Rightarrow> bool) \<Rightarrow> ('d \<Rightarrow> 'd) \<Rightarrow> 'd list \<Rightarrow> 'd list \<times> nat" where
  "updateOne q u [] = ([], 0)"
| "updateOne q u (d # ds) =
     (if q d then (u d # ds, 1)
      else (case updateOne q u ds of (ds', matchedCount) \<Rightarrow> (d # ds', matchedCount)))"

definition hasId :: "string \<Rightarrow> deployment \<Rightarrow> bool" where
  "hasId did d = (deploymentId d = did)"

text \<open>\<^verbatim>\<open>{ $pull: { steps: { step: "init" } } }\<close> and \<^verbatim>\<open>{ $push: { steps: s } }\<close>.\<close>

definition pullInit :: "deployment \<Rightarrow> deployment" where
  "pullInit d = d\<lparr>steps := filter (\<lambda>s. step s \<noteq> Init) (steps d)\<rparr>"

definition pushStep :: "deployment_step \<Rightarrow> deployment \<Rightarrow> deployment" where
  "pushStep s d = d\<lparr>steps := steps d @ [s]\<rparr>"

text \<open>
  The filter \<^verbatim>\<open>{ deploymentId, 'steps.step': 'plan' }\<close> and the update through the positional
  operator \<^verbatim>\<open>steps.$\<close>, which stands for the first element of the array that matches the
  filter.
\<close>

definition hasPlanStep :: "string \<Rightarrow> deployment \<Rightarrow> bool" where
  "hasPlanStep did d = (deploymentId d = did \<and> list_ex (\<lambda>s. step s = Plan) (steps d))"

fun setFirst :: "('a \<Rightarrow> bool) \<Rightarrow> ('a \<Rightarrow> 'a) \<Rightarrow> 'a list \<Rightarrow> 'a list" where
  "setFirst p f [] = []"
| "setFirst p f (x # xs) = (if p x then f x # xs else x # setFirst p f xs)"

definition cancelFirstPlan :: "nat \<Rightarrow> deployment \<Rightarrow> deployment" where
  "cancelFirstPlan date d =
     d\<lparr>steps := setFirst (\<lambda>s. step s = Plan)
                   (\<lambda>s. s\<lparr>stepStatus := Cancelled, timestamp := Some date\<rparr>) (steps d)\<rparr>"

text \<open>
  Modelled from the spec: \<^verbatim>\<open>DeploymentRepository.addDeploymentStep\<close>; the module
  \<^verbatim>\<open>repositories/deployment.reposiory\<close> is missing from the sources. The spec's \<^verbatim>\<open>appendStep\<close>
  fails with NotFound if the deployment is unknown and otherwise appends the new step to the
  sequence, unconditionally.
\<close>

definition addDeploymentStep ::
    "string \<Rightarrow> deployment_step \<Rightarrow> deployment list \<Rightarrow> repo_error + deployment list" where
  "addDeploymentStep did s ds =
     (case findOne (hasId did) ds of
        None \<Rightarrow> Inl NotFound
      | Some existing \<Rightarrow> Inr (fst (updateOne (hasId did) (pushStep s) ds)))"

section \<open>Requests and responses\<close>

text \<open>
  A request carries the route parameter \<^verbatim>\<open>projectId\<close> and the body fields \<^verbatim>\<open>spaceName\<close> and
  \<^verbatim>\<open>deploymentId\<close>, each absent or a string. A response is a status code and a JSON body;
  an object is the list of its keys and values in insertion order.
\<close>

record request =
  req_projectId :: string
  req_spaceName :: "string option"
  req_deploymentId :: "string option"

datatype json = JNull | JBool bool | JNum int | JStr string | JObj "(string \<times> json) list"

record response =
  status :: nat
  body :: json

text \<open>JavaScript truthiness of an optional string: \<^verbatim>\<open>undefined\<close> and \<^verbatim>\<open>""\<close> are falsy.\<close>

definition falsy :: "string option \<Rightarrow> bool" where
  "falsy v = (case v of None \<Rightarrow> True | Some s \<Rightarrow> s = [])"

text \<open>\<^verbatim>\<open>a || b\<close> on strings.\<close>

definition or_else :: "string \<Rightarrow> string \<Rightarrow> string" where
  "or_else a b = (if a \<noteq> [] then a else b)"

text \<open>
  An object literal, spreads included, assigns its keys from left to right: a key that is
  already there keeps its place and takes the new value.
\<close>

fun obj_set :: "string \<Rightarrow> json \<Rightarrow> (string \<times> json) list \<Rightarrow> (string \<times> json) list" where
  "obj_set k v [] = [(k, v)]"
| "obj_set k v ((k', v') # kvs) =
     (if k = k' then (k, v) # kvs else (k', v') # obj_set k v kvs)"

definition obj_lit :: "(string \<times> json) list \<Rightarrow> json" where
  "obj_lit kvs = JObj (foldl (\<lambda>obj (k, v). obj_set k v obj) [] kvs)"

definition keys_of :: "json \<Rightarrow> string list" where
  "keys_of j = (case j of JObj kvs \<Rightarrow> map fst kvs | _ \<Rightarrow> [])"

definition field_json :: "string \<Rightarrow> nat option \<Rightarrow> (string \<times> json) list" where
  "field_json k v = (case v of None \<Rightarrow> [] | Some n \<Rightarrow> [(k, JNum (int n))])"

definition summary_json :: "tofu_summary option \<Rightarrow> json" where
  "summary_json sm =
     (case sm of
        None \<Rightarrow> JNull
      | Some r \<Rightarrow> JObj (field_json ''toAdd'' (toAdd r) @ field_json ''toChange'' (toChange r)
                       @ field_json ''toDestroy'' (toDestroy r) @ field_json ''added'' (added r)
                       @ field_json ''changed'' (changed r)
                       @ field_json ''destroyed'' (destroyed r)))"

definition exitCode_json :: "int option \<Rightarrow> json" where
  "exitCode_json code = (case code of None \<Rightarrow> JNull | Some n \<Rightarrow> JNum n)"

text \<open>The own properties of a result, in the order \<^verbatim>\<open>runCommands\<close> writes them.\<close>

definition result_fields :: "CommandResult \<Rightarrow> (string \<times> json) list" where
  "result_fields result =
     [(''exitCode'', exitCode_json (exitCode result)),
      (''stdout'', JStr (stdout result)),
      (''stderr'', JStr (stderr result)),
      (''combined'', JStr (combined result)),
      (''logFileContent'', JStr (logFileContent result)),
      (''summary'', summary_json (summary result))]"

definition error_response :: "nat \<Rightarrow> string \<Rightarrow> response" where
  "error_response code msg = \<lparr>status = code, body = JObj [(''error'', JStr msg)]\<rparr>"

definition ok_response :: "json \<Rightarrow> response" where
  "ok_response j = \<lparr>status = 200, body = j\<rparr>"

section \<open>The request handlers\<close>

text \<open>
  The lookup of the container, the same in the four step handlers: the image name must be
  set, and the first container of the image is taken.
\<close>

definition selectContainer :: "world \<Rightarrow> response + string" where
  "selectContainer w =
     (case dockerImageName w of
        None \<Rightarrow> Inl (error_response 500 ''DOCKER_IMAGE_NAME environment variable is not set'')
      | Some image_name \<Rightarrow>
          if image_name = [] then
            Inl (error_response 500 ''DOCKER_IMAGE_NAME environment variable is not set'')
          else (case getContainerIdsByImage w image_name of
                  [] \<Rightarrow> Inl (error_response 500 ''No containers found for the image'')
                | containerId # ids \<Rightarrow> Inr containerId))"

definition findProject :: "world \<Rightarrow> string \<Rightarrow> project option" where
  "findProject w pid = findOne (\<lambda>p. proj_projectId p = pid) (projects w)"

definition workspacePathOf :: "project \<Rightarrow> string \<Rightarrow> string" where
  "workspacePathOf p spaceName = ''/workspace/'' @ proj_projectName p @ ''/'' @ spaceName"

text \<open>The status every step handler derives: \<^verbatim>\<open>exitCode === 0 ? "successful" : "failed"\<close>.\<close>

definition statusOf :: "CommandResult \<Rightarrow> step_status" where
  "statusOf result = (if exitCode result = Some 0 then Successful else Failed)"

definition mkStep :: "world \<Rightarrow> step_kind \<Rightarrow> string \<Rightarrow> CommandResult \<Rightarrow> deployment_step" where
  "mkStep w kind msg result =
     \<lparr>step = kind, stepStatus = statusOf result, message = msg,
      stepLogFileContent = logFileContent result, timestamp = defaultTimestamp w\<rparr>"

definition fullMessage :: "CommandResult \<Rightarrow> string" where
  "fullMessage result = or_else (or_else (combined result) (stdout result)) (stderr result)"

text \<open>
  \<^verbatim>\<open>tofuInit\<close> after the command has run (lines 271 to 330): with a \<^verbatim>\<open>deploymentId\<close> the
  deployment must exist, its init steps are pulled and the new one is pushed; without, a
  deployment is created.
\<close>

definition recordInitStep ::
    "world \<Rightarrow> request \<Rightarrow> project \<Rightarrow> string \<Rightarrow> CommandResult \<Rightarrow> deployment list
       \<Rightarrow> response \<times> deployment list" where
  "recordInitStep w req p spaceName result ds =
     (let initStep = mkStep w Init (fullMessage result) result;
          reply = (\<lambda>finalDeploymentId deploymentName.
                     ok_response (obj_lit ([(''command'', JStr ''tofu init''),
                                            (''deploymentId'', JStr finalDeploymentId),
                                            (''deploymentName'', JStr deploymentName),
                                            (''logFileContent'', JStr (logFileContent result))]
                                           @ result_fields result)))
      in if \<not> falsy (req_deploymentId req) then
           (let did = (case req_deploymentId req of Some x \<Rightarrow> x | None \<Rightarrow> []) in
            case findOne (hasId did) ds of
              None \<Rightarrow> (error_response 404 ''Deployment not found'', ds)
            | Some existing \<Rightarrow>
                (let ds1 = fst (updateOne (hasId did) pullInit ds);
                     ds2 = fst (updateOne (hasId did) (pushStep initStep) ds1)
                 in (reply did (deploymentName existing), ds2)))
         else
           (case generateDeploymentIdentifiers w (proj_projectName p) spaceName of
              (newId, newName) \<Rightarrow>
                (reply newId newName,
                 ds @ [\<lparr>deploymentId = newId, projectId = req_projectId req,
                         spaceId = spaceName, deploymentName = newName,
                         steps = [initStep], startedAt = now w\<rparr>])))"

text \<open>
  \<^verbatim>\<open>tofuInit\<close>. A handler returns its response and the collection it leaves, or \<open>None\<close> when
  the command never ends and no response is sent. An error that is thrown is caught and
  answered with status 500.
\<close>

definition tofuInit ::
    "world \<Rightarrow> request \<Rightarrow> deployment list \<Rightarrow> (response \<times> deployment list) option" where
  "tofuInit w req ds =
     (case req_spaceName req of
        None \<Rightarrow> Some (error_response 400 ''spaceName is required'', ds)
      | Some spaceName \<Rightarrow>
          if spaceName = [] then Some (error_response 400 ''spaceName is required'', ds)
          else (case findProject w (req_projectId req) of
             None \<Rightarrow> Some (error_response 404 ''Project not found'', ds)
           | Some p \<Rightarrow>
               (case selectContainer w of
                  Inl r \<Rightarrow> Some (r, ds)
                | Inr containerId \<Rightarrow>
                    (case runCommands w containerId (workspacePathOf p spaceName)
                            [''tofu init -input=false -no-color''] False of
                       None \<Rightarrow> None
                     | Some (Inl err) \<Rightarrow> Some (error_response 500 err, ds)
                     | Some (Inr result) \<Rightarrow>
                         Some (recordInitStep w req p spaceName result ds)))))"

text \<open>
  The replies of the plan handler and of the apply and destroy handlers. The latter spread
  the result after the keys \<^verbatim>\<open>command\<close>, \<^verbatim>\<open>deploymentId\<close> and \<^verbatim>\<open>logFileContent\<close>.
\<close>

definition planReply :: "string \<Rightarrow> CommandResult \<Rightarrow> json" where
  "planReply did humanReadablePlan =
     obj_lit [(''stepName'', JStr ''Plan''),
              (''humanReadable'',
                 obj_lit [(''raw'', JStr (stdout humanReadablePlan)),
                          (''summary'', summary_json (parseTofuSummary (stdout humanReadablePlan)))]),
              (''exitCode'', exitCode_json (exitCode humanReadablePlan)),
              (''stderr'', JStr (stderr humanReadablePlan)),
              (''logFileContent'', JStr (logFileContent humanReadablePlan)),
              (''rawFormat'', JStr (stdout humanReadablePlan))]"

definition commandReply :: "string \<Rightarrow> string \<Rightarrow> CommandResult \<Rightarrow> json" where
  "commandReply command did result =
     obj_lit ([(''command'', JStr command), (''deploymentId'', JStr did),
               (''logFileContent'', JStr (logFileContent result))] @ result_fields result)"

text \<open>\<^verbatim>\<open>tofuPlan\<close>: both body fields are required; the step goes through the repository.\<close>

definition tofuPlan ::
    "world \<Rightarrow> request \<Rightarrow> deployment list \<Rightarrow> (response \<times> deployment list) option" where
  "tofuPlan w req ds =
     (if falsy (req_spaceName req) then Some (error_response 400 ''spaceName is required'', ds)
      else if falsy (req_deploymentId req) then
        Some (error_response 400 ''deploymentId is required'', ds)
      else
        (let spaceName = (case req_spaceName req of Some x \<Rightarrow> x | None \<Rightarrow> []);
             did = (case req_deploymentId req of Some x \<Rightarrow> x | None \<Rightarrow> [])
         in case findProject w (req_projectId req) of
              None \<Rightarrow> Some (error_response 404 ''Project not found'', ds)
            | Some p \<Rightarrow>
                (case selectContainer w of
                   Inl r \<Rightarrow> Some (r, ds)
                 | Inr containerId \<Rightarrow>
                     (case runCommands w containerId (workspacePathOf p spaceName)
                             [''tofu plan -input=false -no-color''] False of
                        None \<Rightarrow> None
                      | Some (Inl err) \<Rightarrow> Some (error_response 500 err, ds)
                      | Some (Inr humanReadablePlan) \<Rightarrow>
                          (case addDeploymentStep did
                                  (mkStep w Plan (fullMessage humanReadablePlan) humanReadablePlan) ds of
                             Inl e \<Rightarrow> Some (error_response 500 (errorMessage w e), ds)
                           | Inr ds' \<Rightarrow>
                               Some (ok_response (planReply did humanReadablePlan), ds'))))))"

text \<open>\<^verbatim>\<open>tofuApply\<close>: as the plan handler; the message of the step leaves \<^verbatim>\<open>combined\<close> out.\<close>

definition tofuApply ::
    "world \<Rightarrow> request \<Rightarrow> deployment list \<Rightarrow> (response \<times> deployment list) option" where
  "tofuApply w req ds =
     (if falsy (req_spaceName req) then Some (error_response 400 ''spaceName is required'', ds)
      else if falsy (req_deploymentId req) then
        Some (error_response 400 ''deploymentId is required'', ds)
      else
        (let spaceName = (case req_spaceName req of Some x \<Rightarrow> x | None \<Rightarrow> []);
             did = (case req_deploymentId req of Some x \<Rightarrow> x | None \<Rightarrow> [])
         in case findProject w (req_projectId req) of
              None \<Rightarrow> Some (error_response 404 ''Project not found'', ds)
            | Some p \<Rightarrow>
                (case selectContainer w of
                   Inl r \<Rightarrow> Some (r, ds)
                 | Inr containerId \<Rightarrow>
                     (case runCommands w containerId (workspacePathOf p spaceName)
                             [''tofu apply -auto-approve -input=false -no-color''] False of
                        None \<Rightarrow> None
                      | Some (Inl err) \<Rightarrow> Some (error_response 500 err, ds)
                      | Some (Inr result) \<Rightarrow>
                          (case addDeploymentStep did
                                  (mkStep w Apply (or_else (stdout result) (stderr result)) result) ds of
                             Inl e \<Rightarrow> Some (error_response 500 (errorMessage w e), ds)
                           | Inr ds' \<Rightarrow>
                               Some (ok_response (commandReply ''tofu apply'' did result), ds'))))))"

text \<open>\<^verbatim>\<open>tofuDestroy\<close>.\<close>

definition tofuDestroy ::
    "world \<Rightarrow> request \<Rightarrow> deployment list \<Rightarrow> (response \<times> deployment list) option" where
  "tofuDestroy w req ds =
     (if falsy (req_spaceName req) then Some (error_response 400 ''spaceName is required'', ds)
      else if falsy (req_deploymentId req) then
        Some (error_response 400 ''deploymentId is required'', ds)
      else
        (let spaceName = (case req_spaceName req of Some x \<Rightarrow> x | None \<Rightarrow> []);
             did = (case req_deploymentId req of Some x \<Rightarrow> x | None \<Rightarrow> [])
         in case findProject w (req_projectId req) of
              None \<Rightarrow> Some (error_response 404 ''Project not found'', ds)
            | Some p \<Rightarrow>
                (case selectContainer w of
                   Inl r \<Rightarrow> Some (r, ds)
                 | Inr containerId \<Rightarrow>
                     (case runCommands w containerId (workspacePathOf p spaceName)
                             [''tofu destroy -auto-approve -input=false -no-color''] False of
                        None \<Rightarrow> None
                      | Some (Inl err) \<Rightarrow> Some (error_response 500 err, ds)
                      | Some (Inr result) \<Rightarrow>
                          (case addDeploymentStep did
                                  (mkStep w Destroy (fullMessage result) result) ds of
                             Inl e \<Rightarrow> Some (error_response 500 (errorMessage w e), ds)
                           | Inr ds' \<Rightarrow>
                               Some (ok_response (commandReply ''tofu destroy'' did result), ds'))))))"

text \<open>\<^verbatim>\<open>tofuPlanDeny\<close>: no command is run, so the handler always answers.\<close>

definition tofuPlanDeny :: "world \<Rightarrow> request \<Rightarrow> deployment list \<Rightarrow> response \<times> deployment list" where
  "tofuPlanDeny w req ds =
     (if falsy (req_deploymentId req) then (error_response 400 ''deploymentId is required'', ds)
      else
        (let did = (case req_deploymentId req of Some x \<Rightarrow> x | None \<Rightarrow> []) in
         case findProject w (req_projectId req) of
           None \<Rightarrow> (error_response 404 ''Project not found'', ds)
         | Some p \<Rightarrow>
             (case updateOne (hasPlanStep did) (cancelFirstPlan (now w)) ds of
                (ds', matchedCount) \<Rightarrow>
                  if matchedCount = 0 then
                    (error_response 404 ''Plan step not found for deployment'', ds')
                  else
                    (ok_response (obj_lit [(''success'', JBool True),
                                           (''message'', JStr ''Plan Step Cancelled by User''),
                                           (''deploymentId'', JStr did)]), ds'))))"

section \<open>Notions the properties are stated with\<close>

text \<open>A line that none of the three patterns of the summarizer matches.\<close>

definition no_match :: "string \<Rightarrow> bool" where
  "no_match line = (re_search planRe line = None \<and> re_search applyRe line = None
                    \<and> re_search destroyRe line = None)"

text \<open>
  What a pattern stands for, apart from any matcher: \<open>denotes re u caps\<close> holds when the
  text \<open>u\<close> is made of one piece for each item of \<open>re\<close>, in order (the literal itself, a
  non-empty run of whitespace, a non-empty run of digits), and \<open>caps\<close> lists the runs of
  digits.
\<close>

inductive denotes :: "re_item list \<Rightarrow> string \<Rightarrow> string list \<Rightarrow> bool" where
  d_end: "denotes [] [] []"
| d_lit: "denotes ts v caps \<Longrightarrow> denotes (Lit l # ts) (l @ v) caps"
| d_spaces: "a \<noteq> [] \<Longrightarrow> \<forall>c\<in>set a. is_space c \<Longrightarrow> denotes ts v caps
               \<Longrightarrow> denotes (Spaces # ts) (a @ v) caps"
| d_digits: "a \<noteq> [] \<Longrightarrow> \<forall>c\<in>set a. is_digit c \<Longrightarrow> denotes ts v caps
               \<Longrightarrow> denotes (Digits # ts) (a @ v) (a # caps)"

text \<open>
  The chunks a process delivers before it closes or fails, in arrival order, each with the
  stream it came from; and the chunks of one stream among them.
\<close>

datatype stream = Out | Err

fun arrivals :: "proc_event list \<Rightarrow> (stream \<times> string) list" where
  "arrivals [] = []"
| "arrivals (StdoutData d # es) = (Out, d) # arrivals es"
| "arrivals (StderrData d # es) = (Err, d) # arrivals es"
| "arrivals (Close code # es) = []"
| "arrivals (ProcError e # es) = []"

definition chunks_of :: "stream \<Rightarrow> (stream \<times> string) list \<Rightarrow> string list" where
  "chunks_of s arr = map snd (filter (\<lambda>x. fst x = s) arr)"

text \<open>A small world for concrete runs: one project, one container, a given \<^verbatim>\<open>spawn\<close>.\<close>

definition demo_world :: "(string list \<Rightarrow> spawned) \<Rightarrow> world" where
  "demo_world sp =
     \<lparr>projects = [\<lparr>proj_projectId = ''p1'', proj_projectName = ''shop''\<rparr>],
      dockerImageName = Some ''img'',
      getContainerIdsByImage = (\<lambda>image. [''c1'']),
      generateDeploymentIdentifiers = (\<lambda>projectName spaceName. (''d-new'', ''shop-dev-1'')),
      spawn = sp,
      nowIso = ''2025-01-02T03:04:05.678Z'',
      now = 1000,
      defaultTimestamp = None,
      errorMessage = (\<lambda>e. ''Deployment not found'')\<rparr>"

text \<open>A process whose first chunk arrives on the error stream.\<close>

definition late_stdout :: "string list \<Rightarrow> spawned" where
  "late_stdout args =
     Spawned [(5, StderrData ''warn ''), (9, StdoutData ''done''), (12, Close (Some 0))]"

text \<open>A process that writes to the output stream first and to the error stream last.\<close>

definition stdout_first :: "string list \<Rightarrow> spawned" where
  "stdout_first args =
     Spawned [(1, StdoutData ''a''), (2, StdoutData ''b''), (3, StderrData ''c''),
              (4, Close (Some 1))]"


text \<open>The repository's append, called once for each step of a list, in order.\<close>

fun appendAll ::
    "string \<Rightarrow> deployment_step list \<Rightarrow> deployment list \<Rightarrow> repo_error + deployment list" where
  "appendAll did [] ds = Inr ds"
| "appendAll did (s # ss) ds =
     (case addDeploymentStep did s ds of Inl e \<Rightarrow> Inl e | Inr ds' \<Rightarrow> appendAll did ss ds')"

text \<open>
  A ledger of two deployments for concrete runs: the first has a failed init step between
  two plan steps and a third plan step, the second has only its init step.
\<close>

definition demo_step :: "step_kind \<Rightarrow> step_status \<Rightarrow> string \<Rightarrow> deployment_step" where
  "demo_step k st m =
     \<lparr>step = k, stepStatus = st, message = m, stepLogFileContent = [], timestamp = Some 7\<rparr>"

definition demo_ledger :: "deployment list" where
  "demo_ledger =
     [\<lparr>deploymentId = ''d-1'', projectId = ''p1'', spaceId = ''dev'',
       deploymentName = ''shop-dev-1'',
       steps = [demo_step Plan Failed ''a'', demo_step Init Failed ''b'',
                demo_step Plan Successful ''c'', demo_step Plan Successful ''d''],
       startedAt = 3\<rparr>,
      \<lparr>deploymentId = ''d-2'', projectId = ''p1'', spaceId = ''qa'',
       deploymentName = ''shop-qa-1'',
       steps = [demo_step Init Successful ''e''],
       startedAt = 5\<rparr>]"

definition demo_request :: "string \<Rightarrow> request" where
  "demo_request did =
     \<lparr>req_projectId = ''p1'', req_spaceName = Some ''dev'', req_deploymentId = Some did\<rparr>"

definition demo_result :: "int \<Rightarrow> string \<Rightarrow> CommandResult" where
  "demo_result code out =
     \<lparr>exitCode = Some code, stdout = out, stderr = [], combined = out, logFileContent = [],
      summary = None\<rparr>"

text \<open>How the events of a process end: with \<^verbatim>\<open>close\<close>, with \<^verbatim>\<open>error\<close>, or with neither.\<close>

datatype proc_end = Exit "int option" | SpawnError string | Never

fun ending :: "proc_event list \<Rightarrow> proc_end" where
  "ending [] = Never"
| "ending (StdoutData d # es) = ending es"
| "ending (StderrData d # es) = ending es"
| "ending (Close code # es) = Exit code"
| "ending (ProcError e # es) = SpawnError e"

definition is_end :: "proc_event \<Rightarrow> bool" where
  "is_end ev = (case ev of Close code \<Rightarrow> True | ProcError e \<Rightarrow> True | _ \<Rightarrow> False)"



text \<open>
  What \<^verbatim>\<open>tofuPlan\<close>, \<^verbatim>\<open>tofuApply\<close> and \<^verbatim>\<open>tofuDestroy\<close> share: the checks, the run of one
  command, the step appended through the repository, and the reply. They differ in the
  command, the kind and the message of the step, and the reply.
\<close>

definition stepHandler ::
    "string \<Rightarrow> step_kind \<Rightarrow> (CommandResult \<Rightarrow> string) \<Rightarrow> (string \<Rightarrow> CommandResult \<Rightarrow> json)
       \<Rightarrow> world \<Rightarrow> request \<Rightarrow> deployment list \<Rightarrow> (response \<times> deployment list) option" where
  "stepHandler cmd kind msgOf reply w req ds =
     (if falsy (req_spaceName req) then Some (error_response 400 ''spaceName is required'', ds)
      else if falsy (req_deploymentId req) then
        Some (error_response 400 ''deploymentId is required'', ds)
      else
        (let spaceName = (case req_spaceName req of Some x \<Rightarrow> x | None \<Rightarrow> []);
             did = (case req_deploymentId req of Some x \<Rightarrow> x | None \<Rightarrow> [])
         in case findProject w (req_projectId req) of
              None \<Rightarrow> Some (error_response 404 ''Project not found'', ds)
            | Some p \<Rightarrow>
                (case selectContainer w of
                   Inl r \<Rightarrow> Some (r, ds)
                 | Inr containerId \<Rightarrow>
                     (case runCommands w containerId (workspacePathOf p spaceName) [cmd] False of
                        None \<Rightarrow> None
                      | Some (Inl err) \<Rightarrow> Some (error_response 500 err, ds)
                      | Some (Inr result) \<Rightarrow>
                          (case addDeploymentStep did (mkStep w kind (msgOf result) result) ds of
                             Inl e \<Rightarrow> Some (error_response 500 (errorMessage w e), ds)
                           | Inr ds' \<Rightarrow> Some (ok_response (reply did result), ds'))))))"



text \<open>The value of a key of a JSON object.\<close>

definition get_field :: "string \<Rightarrow> json \<Rightarrow> json option" where
  "get_field k j = (case j of JObj kvs \<Rightarrow> map_of kvs k | _ \<Rightarrow> None)"

text \<open>More processes for concrete runs. The last two answer the read-back (the \<^verbatim>\<open>cat\<close>
  invocation) and the primary command differently.\<close>

definition plan_ok :: "string list \<Rightarrow> spawned" where
  "plan_ok args =
     Spawned [(4, StdoutData ''Plan: 1 to add, 0 to change, 2 to destroy''), (8, Close (Some 0))]"

definition exits_with :: "int option \<Rightarrow> string list \<Rightarrow> spawned" where
  "exits_with code args = Spawned [(4, StdoutData ''out''), (8, Close code)]"

definition slow_readback :: "string list \<Rightarrow> spawned" where
  "slow_readback args =
     (if ''cat'' \<in> set args
      then Spawned [(100, StdoutData ''partial log''), (3050, Close None)]
      else Spawned [(4, StdoutData ''out''), (8, Close (Some 0))])"

definition quick_readback :: "string list \<Rightarrow> spawned" where
  "quick_readback args =
     (if ''cat'' \<in> set args
      then Spawned [(20, StdoutData ''log''), (40, Close (Some 0))]
      else Spawned [(4, StdoutData ''out''), (8, Close (Some 2))])"

section \<open>The summarizer: first match wins\<close>

lemma first_some_Some: "first_some f xs = Some y \<Longrightarrow> \<exists>x\<in>set xs. f x = Some y"
  by (induction xs) (auto split: option.splits)

lemma first_some_None: "first_some f xs = None \<longleftrightarrow> (\<forall>x\<in>set xs. f x = None)"
  by (induction xs) (auto split: option.splits)

text \<open>A match carries one captured group for each group of the pattern, so the reads
  \<open>m ! 0\<close>, \<open>m ! 1\<close> and \<open>m ! 2\<close> of the summarizer are in range.\<close>

lemma re_match_here_captures:
  "re_match_here ts s = Some m \<Longrightarrow> length m = length (filter (\<lambda>t. t = Digits) ts)"
proof (induction ts s arbitrary: m rule: re_match_here.induct)
  case (1 s)
  then show ?case by simp
next
  case (2 l ts s)
  then show ?case by (simp split: if_splits)
next
  case (3 ts s)
  then show ?case by (auto dest!: first_some_Some)
next
  case (4 ts s)
  then show ?case by (auto dest!: first_some_Some)
qed

lemma re_search_captures:
  "re_search ts s = Some m \<Longrightarrow> length m = length (filter (\<lambda>t. t = Digits) ts)"
  by (induction ts s rule: re_search.induct)
     (auto split: option.splits dest: re_match_here_captures)

lemma planRe_three_groups: "re_search planRe line = Some m \<Longrightarrow> \<exists>a b c. m = [a, b, c]"
  by (drule re_search_captures) (auto simp: planRe_def length_Suc_conv)

lemma applyRe_three_groups: "re_search applyRe line = Some m \<Longrightarrow> \<exists>a b c. m = [a, b, c]"
  by (drule re_search_captures) (auto simp: applyRe_def length_Suc_conv)

lemma destroyRe_one_group: "re_search destroyRe line = Some m \<Longrightarrow> \<exists>a. m = [a]"
  by (drule re_search_captures) (auto simp: destroyRe_def length_Suc_conv)



text \<open>
  The matcher is sound and complete for what a pattern stands for: a search succeeds exactly
  when some part of the line is denoted by the pattern, and the groups it returns are those
  of such a part.
\<close>

lemma plus_splits_set:
  "set (plus_splits p s) = {(a, r). a \<noteq> [] \<and> s = a @ r \<and> (\<forall>c\<in>set a. p c)}"
proof (induction s)
  case Nil
  then show ?case by auto
next
  case (Cons c cs)
  show ?case
  proof (cases "p c")
    case False
    then show ?thesis by (auto simp: Cons_eq_append_conv)
  next
    case True
    then show ?thesis using Cons by (auto simp: Cons_eq_append_conv)
  qed
qed

lemma re_match_here_sound:
  "re_match_here ts s = Some caps \<Longrightarrow> \<exists>u r. s = u @ r \<and> denotes ts u caps"
proof (induction ts s arbitrary: caps rule: re_match_here.induct)
  case (1 s)
  then have "s = [] @ s \<and> denotes [] [] caps" by (simp add: d_end)
  then show ?case by blast
next
  case (2 l ts s)
  from "2.prems" have t: "take (length l) s = l"
    and m: "re_match_here ts (drop (length l) s) = Some caps" by (simp_all split: if_splits)
  from "2.IH"[OF t m] obtain u r where "drop (length l) s = u @ r" "denotes ts u caps" by blast
  with t have "s = (l @ u) @ r \<and> denotes (Lit l # ts) (l @ u) caps"
    by (metis append_assoc append_take_drop_id d_lit)
  then show ?case by blast
next
  case (3 ts s)
  from "3.prems" obtain a r0 where i: "(a, r0) \<in> set (plus_splits is_space s)"
    and m: "re_match_here ts r0 = Some caps"
    by (auto dest!: first_some_Some)
  from i have a: "a \<noteq> []" "s = a @ r0" "\<forall>c\<in>set a. is_space c" by (auto simp: plus_splits_set)
  from "3.IH"[OF m] obtain u r where "r0 = u @ r" "denotes ts u caps" by blast
  with a have "s = (a @ u) @ r \<and> denotes (Spaces # ts) (a @ u) caps" by (simp add: d_spaces)
  then show ?case by blast
next
  case (4 ts s)
  from "4.prems" obtain a r0 cs where i: "(a, r0) \<in> set (plus_splits is_digit s)"
    and m: "re_match_here ts r0 = Some cs" and c: "caps = a # cs"
    by (auto dest!: first_some_Some)
  from i have a: "a \<noteq> []" "s = a @ r0" "\<forall>c\<in>set a. is_digit c" by (auto simp: plus_splits_set)
  from "4.IH"[OF m] obtain u r where "r0 = u @ r" "denotes ts u cs" by blast
  with a c have "s = (a @ u) @ r \<and> denotes (Digits # ts) (a @ u) caps" by (simp add: d_digits)
  then show ?case by blast
qed

lemma first_some_found: "x \<in> set xs \<Longrightarrow> f x \<noteq> None \<Longrightarrow> first_some f xs \<noteq> None"
  by (auto simp: first_some_None)

lemma re_match_here_complete:
  "denotes ts u caps \<Longrightarrow> re_match_here ts (u @ r) \<noteq> None"
proof (induction arbitrary: r rule: denotes.induct)
  case d_end
  then show ?case by simp
next
  case (d_lit ts v caps l)
  then show ?case by simp
next
  case (d_spaces a ts v caps)
  have "(a, v @ r) \<in> set (plus_splits is_space ((a @ v) @ r))"
    using d_spaces.hyps(1,2) by (simp add: plus_splits_set)
  moreover from d_spaces.IH[of r] have "(\<lambda>(a, r). re_match_here ts r) (a, v @ r) \<noteq> None"
    by simp
  ultimately have "first_some (\<lambda>(a, r). re_match_here ts r)
                     (plus_splits is_space ((a @ v) @ r)) \<noteq> None"
    by (rule first_some_found)
  then show ?case by (simp del: append_assoc)
next
  case (d_digits a ts v caps)
  have "(a, v @ r) \<in> set (plus_splits is_digit ((a @ v) @ r))"
    using d_digits.hyps(1,2) by (simp add: plus_splits_set)
  moreover from d_digits.IH[of r]
  have "(\<lambda>(a, r). map_option (Cons a) (re_match_here ts r)) (a, v @ r) \<noteq> None"
    by simp
  ultimately have "first_some (\<lambda>(a, r). map_option (Cons a) (re_match_here ts r))
                     (plus_splits is_digit ((a @ v) @ r)) \<noteq> None"
    by (rule first_some_found)
  then show ?case by (simp del: append_assoc)
qed

lemma re_search_sound:
  "re_search ts s = Some caps \<Longrightarrow> \<exists>pre u post. s = pre @ u @ post \<and> denotes ts u caps"
proof (induction ts s rule: re_search.induct)
  case (1 re)
  from re_match_here_sound[of re "[]" caps] 1 obtain u r where
    "[] = u @ r" "denotes re u caps" by auto
  then have "[] = [] @ u @ r \<and> denotes re u caps" by simp
  then show ?case by blast
next
  case (2 re c cs)
  show ?case
  proof (cases "re_match_here re (c # cs)")
    case (Some m)
    with "2.prems" have "re_match_here re (c # cs) = Some caps" by simp
    from re_match_here_sound[OF this] obtain u r where
      "c # cs = u @ r" "denotes re u caps" by blast
    then have "c # cs = [] @ u @ r \<and> denotes re u caps" by simp
    then show ?thesis by blast
  next
    case None
    with "2.prems" have "re_search re cs = Some caps" by simp
    from "2.IH"[OF None this] obtain pre u post where
      "cs = pre @ u @ post" "denotes re u caps" by blast
    then have "c # cs = (c # pre) @ u @ post \<and> denotes re u caps" by simp
    then show ?thesis by blast
  qed
qed

lemma re_search_complete:
  "denotes ts u caps \<Longrightarrow> re_search ts (pre @ u @ post) \<noteq> None"
proof (induction pre)
  case Nil
  from re_match_here_complete[OF Nil, of post] show ?case
    by (cases "u @ post") (auto split: option.splits)
next
  case (Cons c pre)
  then show ?case by (auto split: option.splits)
qed

text \<open>So a line matches none of the patterns exactly when no part of it is a report.\<close>

lemma no_match_iff:
  "no_match line \<longleftrightarrow>
     (\<forall>re\<in>{planRe, applyRe, destroyRe}. \<forall>pre u post caps. line = pre @ u @ post \<longrightarrow> \<not> denotes re u caps)"
proof
  assume n: "no_match line"
  show "\<forall>re\<in>{planRe, applyRe, destroyRe}. \<forall>pre u post caps. line = pre @ u @ post \<longrightarrow> \<not> denotes re u caps"
  proof (intro ballI allI impI notI)
    fix re pre u post caps
    assume "re \<in> {planRe, applyRe, destroyRe}" "line = pre @ u @ post" "denotes re u caps"
    with re_search_complete[of re u caps pre post] n show False
      by (auto simp: no_match_def)
  qed
next
  assume a: "\<forall>re\<in>{planRe, applyRe, destroyRe}. \<forall>pre u post caps. line = pre @ u @ post \<longrightarrow> \<not> denotes re u caps"
  have "re_search re line = None" if "re \<in> {planRe, applyRe, destroyRe}" for re
  proof (cases "re_search re line")
    case None
    then show ?thesis .
  next
    case (Some caps)
    from re_search_sound[OF Some] a that show ?thesis by blast
  qed
  then show "no_match line" by (simp add: no_match_def)
qed

text \<open>The destroy report, spelled out.\<close>

inductive_simps denotes_end: "denotes [] u caps"
inductive_simps denotes_lit: "denotes (Lit l # ts) u caps"
inductive_simps denotes_spaces: "denotes (Spaces # ts) u caps"
inductive_simps denotes_digits: "denotes (Digits # ts) u caps"

lemma destroy_line:
  "denotes destroyRe u caps \<longleftrightarrow>
     (\<exists>w1 n w2. u = ''Destroy complete! Resources:'' @ w1 @ n @ w2 @ ''destroyed'' \<and> caps = [n]
        \<and> w1 \<noteq> [] \<and> (\<forall>c\<in>set w1. is_space c) \<and> n \<noteq> [] \<and> (\<forall>c\<in>set n. is_digit c)
        \<and> w2 \<noteq> [] \<and> (\<forall>c\<in>set w2. is_space c))"
  unfolding destroyRe_def
  by (simp only: denotes_end denotes_lit denotes_spaces denotes_digits) (auto; blast)



section \<open>The command runner: the shell string\<close>

text \<open>
  C3. For a chain of at least one command the shell string is \<^verbatim>\<open>cd \<close>, the path with a
  backslash before every character of the set (double quote, single quote, dollar,
  backtick, backslash, whitespace), then each command after \<^verbatim>\<open> && \<close>, then \<^verbatim>\<open> 2>&1\<close>; and
  the last three arguments given to \<^verbatim>\<open>docker\<close> are \<^verbatim>\<open>bash\<close>, \<^verbatim>\<open>-c\<close> and that string, with
  logging or without.
\<close>

theorem wrappedCmd_shape:
  "wrappedCmd workspacePath (cmd1 # cmds) =
     ''cd '' @ concat (map (\<lambda>c. if is_special c then [CHR 0x5C, c] else [c]) workspacePath)
       @ '' && '' @ cmd1 @ concat (map (\<lambda>cmd. '' && '' @ cmd) cmds) @ '' 2>&1''
   \<and> (let args = dockerArgs w containerId workspacePath (cmd1 # cmds) enableLogging
      in drop (length args - 3) args = [''bash'', ''-c'', wrappedCmd workspacePath (cmd1 # cmds)])
   \<and> (is_special c \<longleftrightarrow> c \<in> {CHR 0x22, CHR 0x27, CHR 0x24, CHR 0x60, CHR 0x5C,
                              CHR 0x09, CHR 0x0A, CHR 0x0B, CHR 0x0C, CHR 0x0D, CHR 0x20, CHR 0xA0})"
proof (intro conjI)
  have e: "escapePath p = concat (map (\<lambda>c. if is_special c then [CHR 0x5C, c] else [c]) p)" for p
    by (induction p) simp_all
  have j: "join sep (x # xs) = x @ concat (map (\<lambda>y. sep @ y) xs)" for sep x xs
    by (induction xs arbitrary: x) simp_all
  show "wrappedCmd workspacePath (cmd1 # cmds) =
     ''cd '' @ concat (map (\<lambda>c. if is_special c then [CHR 0x5C, c] else [c]) workspacePath)
       @ '' && '' @ cmd1 @ concat (map (\<lambda>cmd. '' && '' @ cmd) cmds) @ '' 2>&1''"
    by (simp add: wrappedCmd_def e j)
  show "let args = dockerArgs w containerId workspacePath (cmd1 # cmds) enableLogging
      in drop (length args - 3) args = [''bash'', ''-c'', wrappedCmd workspacePath (cmd1 # cmds)]"
    by (simp add: dockerArgs_def Let_def splice_last3_def)
  show "is_special c \<longleftrightarrow> c \<in> {CHR 0x22, CHR 0x27, CHR 0x24, CHR 0x60, CHR 0x5C,
                              CHR 0x09, CHR 0x0A, CHR 0x0B, CHR 0x0C, CHR 0x0D, CHR 0x20, CHR 0xA0}"
    by (auto simp: is_special_def is_space_def)
qed

text \<open>A path with a space and a dollar sign, and a chain of two commands.\<close>

theorem wrappedCmd_shape_witness:
  "wrappedCmd ''/w/my shop/d$v'' [''tofu init'', ''tofu plan'']
     = ''cd /w/my'' @ [CHR 0x5C] @ '' shop/d'' @ [CHR 0x5C] @ ''$v && tofu init && tofu plan 2>&1''"
  using wrappedCmd_shape [of "''/w/my shop/d$v''" "''tofu init''" "[''tofu plan'']"]
  by (simp add: is_special_def is_space_def)

section \<open>The command runner: the combined output\<close>

lemma run_proc_buffers:
  "run_proc so se es = Closed code so' se' \<Longrightarrow>
     so' = so @ concat (chunks_of Out (arrivals es))
     \<and> se' = se @ concat (chunks_of Err (arrivals es))"
  by (induction so se es rule: run_proc.induct) (auto simp: chunks_of_def)

lemma runCommands_resolved:
  assumes "runCommands w cid p cmds lg = Some (Inr r)"
    and "spawn w (dockerArgs w cid p cmds lg) = Spawned tr"
  shows "\<exists>code. run_proc [] [] (map snd tr) = Closed code (stdout r) (stderr r)
          \<and> exitCode r = code \<and> combined r = stdout r @ stderr r
          \<and> summary r = parseTofuSummary (stdout r)"
  using assms
  by (auto simp: runCommands_def Let_def
           split: spawned.splits settled.splits option.splits if_splits)

lemma concat_two_phase:
  assumes "arr = os @ er" "\<forall>x\<in>set os. fst x = Out" "\<forall>x\<in>set er. fst x = Err"
  shows "concat (chunks_of Out arr) @ concat (chunks_of Err arr) = concat (map snd arr)"
proof -
  have "filter (\<lambda>x. fst x = Out) os = os" "filter (\<lambda>x. fst x = Err) er = er"
       "filter (\<lambda>x. fst x = Out) er = []" "filter (\<lambda>x. fst x = Err) os = []"
    using assms(2,3) by (auto simp: filter_empty_conv)
  then show ?thesis using assms(1) by (simp add: chunks_of_def)
qed

text \<open>
  C1, as the code has it. The combined output is the whole captured output stream followed
  by the whole captured error stream. Each of the two is the concatenation of the chunks of
  its stream in arrival order, so neither stream is reordered relative to itself. The
  combined output is the concatenation of all chunks in arrival order whenever no chunk of
  the output stream arrives after a chunk of the error stream.
\<close>

theorem runCommands_combined:
  assumes "spawn w (dockerArgs w containerId workspacePath commands enableLogging) = Spawned tr"
    and "runCommands w containerId workspacePath commands enableLogging = Some (Inr r)"
  shows "combined r = stdout r @ stderr r
       \<and> stdout r = concat (chunks_of Out (arrivals (map snd tr)))
       \<and> stderr r = concat (chunks_of Err (arrivals (map snd tr)))
       \<and> (\<forall>os er. arrivals (map snd tr) = os @ er \<and> (\<forall>x\<in>set os. fst x = Out)
                     \<and> (\<forall>x\<in>set er. fst x = Err)
             \<longrightarrow> combined r = concat (map snd (arrivals (map snd tr))))"
proof -
  from runCommands_resolved[OF assms(2,1)] obtain code where
    rp: "run_proc [] [] (map snd tr) = Closed code (stdout r) (stderr r)"
    and c: "combined r = stdout r @ stderr r" by blast
  from run_proc_buffers[OF rp] have
    so: "stdout r = concat (chunks_of Out (arrivals (map snd tr)))" and
    se: "stderr r = concat (chunks_of Err (arrivals (map snd tr)))" by simp_all
  show ?thesis
  proof (intro conjI allI impI)
    show "combined r = stdout r @ stderr r" by (rule c)
    show "stdout r = concat (chunks_of Out (arrivals (map snd tr)))" by (rule so)
    show "stderr r = concat (chunks_of Err (arrivals (map snd tr)))" by (rule se)
  next
    fix os er
    assume "arrivals (map snd tr) = os @ er \<and> (\<forall>x\<in>set os. fst x = Out)
              \<and> (\<forall>x\<in>set er. fst x = Err)"
    then have "concat (chunks_of Out (arrivals (map snd tr)))
                 @ concat (chunks_of Err (arrivals (map snd tr)))
               = concat (map snd (arrivals (map snd tr)))"
      using concat_two_phase by blast
    with c so se show "combined r = concat (map snd (arrivals (map snd tr)))" by simp
  qed
qed

lemma stdout_first_run:
  "runCommands (demo_world stdout_first) ''c1'' ''/workspace/shop/dev'' [''tofu version''] False
     = Some (Inr \<lparr>exitCode = Some 1, stdout = ''ab'', stderr = ''c'', combined = ''abc'',
                  logFileContent = [], summary = None\<rparr>)"
  by (simp add: runCommands_def demo_world_def stdout_first_def logFilePathOf_def dockerArgs_def
       parseTofuSummary_def planRe_def applyRe_def destroyRe_def)

theorem runCommands_combined_witness:
  "runCommands (demo_world stdout_first) ''c1'' ''/workspace/shop/dev'' [''tofu version''] False
     = Some (Inr \<lparr>exitCode = Some 1, stdout = ''ab'', stderr = ''c'', combined = ''abc'',
                  logFileContent = [], summary = None\<rparr>)
   \<and> concat (map snd (arrivals [StdoutData ''a'', StdoutData ''b'', StderrData ''c'',
                                Close (Some 1)])) = ''abc''
   \<and> concat (chunks_of Out (arrivals [StdoutData ''a'', StdoutData ''b'', StderrData ''c'',
                                      Close (Some 1)])) = ''ab''"
proof -
  have s: "spawn (demo_world stdout_first)
             (dockerArgs (demo_world stdout_first) ''c1'' ''/workspace/shop/dev''
                [''tofu version''] False)
           = Spawned [(1, StdoutData ''a''), (2, StdoutData ''b''), (3, StderrData ''c''),
                      (4, Close (Some 1))]"
    by (simp add: demo_world_def stdout_first_def)
  from runCommands_combined [OF s stdout_first_run] stdout_first_run
  show ?thesis by simp
qed

text \<open>
  The claim as written fails when a chunk of the error stream arrives first: the combined
  output puts it last.
\<close>

lemma late_stdout_run:
  "runCommands (demo_world late_stdout) ''c1'' ''/workspace/shop/dev'' [''tofu version''] False
     = Some (Inr \<lparr>exitCode = Some 0, stdout = ''done'', stderr = ''warn '',
                  combined = ''donewarn '', logFileContent = [], summary = None\<rparr>)"
  by (simp add: runCommands_def demo_world_def late_stdout_def logFilePathOf_def dockerArgs_def
       parseTofuSummary_def planRe_def applyRe_def destroyRe_def)

theorem combined_chronological_counterexample:
  "map_option (map_sum id combined)
     (runCommands (demo_world late_stdout) ''c1'' ''/workspace/shop/dev'' [''tofu version''] False)
     = Some (Inr ''donewarn '')
   \<and> concat (map snd (arrivals [StderrData ''warn '', StdoutData ''done'', Close (Some 0)]))
     = ''warn done''"
  by (simp add: late_stdout_run)

section \<open>The command runner: the end of a process and the log read-back\<close>

lemma run_proc_ending:
  "run_proc so se es =
     (case ending es of
        Never \<Rightarrow> Pending
      | SpawnError e \<Rightarrow> Errored e
      | Exit code \<Rightarrow> Closed code (so @ concat (chunks_of Out (arrivals es)))
                                  (se @ concat (chunks_of Err (arrivals es))))"
  by (induction so se es rule: run_proc.induct)
     (simp_all add: chunks_of_def split: proc_end.splits)

lemma read_log_ending:
  "read_log buf es =
     (case ending es of
        Never \<Rightarrow> None
      | SpawnError e \<Rightarrow> Some []
      | Exit code \<Rightarrow> Some (buf @ concat (chunks_of Out (arrivals es))))"
  by (induction buf es rule: read_log.induct)
     (simp_all add: chunks_of_def split: proc_end.splits)

lemma kill_called_iff:
  "sorted (map fst ltr) \<Longrightarrow>
     kill_called ltr \<longleftrightarrow> (\<forall>x\<in>set ltr. is_end (snd x) \<longrightarrow> 3000 \<le> fst x)"
proof (induction ltr)
  case Nil
  then show ?case by simp
next
  case (Cons x xs)
  obtain t ev where x: "x = (t, ev)" by (cases x)
  from Cons.prems have s: "sorted (map fst xs)" and le: "\<forall>y\<in>set xs. t \<le> fst y"
    by (auto simp: x)
  show ?case
  proof (cases "3000 \<le> t")
    case True
    with le have "\<forall>y\<in>set xs. 3000 \<le> fst y" by auto
    with True show ?thesis by (simp add: x)
  next
    case False
    then show ?thesis using Cons.IH[OF s]
      by (cases ev) (auto simp: x is_end_def)
  qed
qed

lemma runCommands_by_ending:
  "runCommands w cid path cmds lg =
    (case spawn w (dockerArgs w cid path cmds lg) of
       SpawnThrows err \<Rightarrow> Some (Inl err)
     | Spawned tr \<Rightarrow>
        (case ending (map snd tr) of
           Never \<Rightarrow> None
         | SpawnError e \<Rightarrow> Some (Inl e)
         | Exit code \<Rightarrow>
             (case (if lg \<and> logFilePathOf w path lg \<noteq> []
                    then readLogFile w cid (logFilePathOf w path lg) else Some []) of
                None \<Rightarrow> None
              | Some content \<Rightarrow>
                  Some (Inr \<lparr>exitCode = code,
                             stdout = concat (chunks_of Out (arrivals (map snd tr))),
                             stderr = concat (chunks_of Err (arrivals (map snd tr))),
                             combined = concat (chunks_of Out (arrivals (map snd tr)))
                                        @ concat (chunks_of Err (arrivals (map snd tr))),
                             logFileContent = content,
                             summary = parseTofuSummary
                                         (concat (chunks_of Out (arrivals (map snd tr))))\<rparr>))))"
  by (simp add: runCommands_def Let_def run_proc_ending split: spawned.splits proc_end.splits)

lemma logFilePathOf_nonempty: "CHR 0x20 \<notin> set path \<Longrightarrow> logFilePathOf w path True \<noteq> []"
  by (simp add: logFilePathOf_def Let_def)

text \<open>
  C7, as the code has it. Take a run with logging whose primary process exits. If the
  read-back process closes, the result is resolved with the exit code, the streams and the
  summary of the primary process, and \<open>logFileContent\<close> is what the read-back had written to
  its output before it closed, whether the timer had fired or not. If the read-back emits
  \<^verbatim>\<open>error\<close>, or its spawn throws, the result is resolved the same with an empty
  \<open>logFileContent\<close>: a read-back failure never rejects. The result waits for the read-back to
  end and stays pending if it never does. The timer calls \<^verbatim>\<open>kill\<close> exactly when the read-back
  has not ended before 3000 ms.
\<close>

theorem log_readback:
  assumes "CHR 0x20 \<notin> set workspacePath"
    and "spawn w (dockerArgs w containerId workspacePath commands True) = Spawned tr"
    and "ending (map snd tr) = Exit code"
  shows
    "(let readback = spawn w (logReadArgs containerId (logFilePathOf w workspacePath True));
          out = concat (chunks_of Out (arrivals (map snd tr)));
          err = concat (chunks_of Err (arrivals (map snd tr)));
          resolved = (\<lambda>content.
             Some (Inr \<lparr>exitCode = code, stdout = out, stderr = err, combined = out @ err,
                        logFileContent = content, summary = parseTofuSummary out\<rparr>))
      in (\<forall>ltr c. readback = Spawned ltr \<and> ending (map snd ltr) = Exit c \<longrightarrow>
            runCommands w containerId workspacePath commands True
              = resolved (concat (chunks_of Out (arrivals (map snd ltr)))))
       \<and> (\<forall>ltr e. readback = Spawned ltr \<and> ending (map snd ltr) = SpawnError e \<longrightarrow>
            runCommands w containerId workspacePath commands True = resolved [])
       \<and> (\<forall>e. readback = SpawnThrows e \<longrightarrow>
            runCommands w containerId workspacePath commands True = resolved [])
       \<and> (\<forall>ltr. readback = Spawned ltr \<and> ending (map snd ltr) = Never \<longrightarrow>
            runCommands w containerId workspacePath commands True = None)
       \<and> (\<forall>ltr. readback = Spawned ltr \<and> sorted (map fst ltr) \<longrightarrow>
            (kill_called ltr \<longleftrightarrow> (\<forall>x\<in>set ltr. is_end (snd x) \<longrightarrow> 3000 \<le> fst x))))"
  using assms logFilePathOf_nonempty[OF assms(1), of w]
  by (auto simp: Let_def runCommands_by_ending readLogFile_def read_log_ending kill_called_iff)

text \<open>A read-back that closes after 40 ms: its output is the log content, and no kill.\<close>

theorem log_readback_witness:
  "runCommands (demo_world quick_readback) ''c1'' ''/workspace/shop/dev'' [''tofu plan''] True
     = Some (Inr \<lparr>exitCode = Some 2, stdout = ''out'', stderr = [], combined = ''out'',
                  logFileContent = ''log'', summary = None\<rparr>)
   \<and> kill_called [(20, StdoutData ''log''), (40, Close (Some 0))] = False"
proof -
  have h1: "CHR 0x20 \<notin> set ''/workspace/shop/dev''" by simp
  have h2: "spawn (demo_world quick_readback)
              (dockerArgs (demo_world quick_readback) ''c1'' ''/workspace/shop/dev''
                 [''tofu plan''] True)
            = Spawned [(4, StdoutData ''out''), (8, Close (Some 2))]"
    by code_simp
  have h3: "ending (map snd [(4, StdoutData ''out''), (8, Close (Some 2))]) = Exit (Some 2)"
    by simp
  have r: "spawn (demo_world quick_readback)
             (logReadArgs ''c1'' (logFilePathOf (demo_world quick_readback)
                                    ''/workspace/shop/dev'' True))
           = Spawned [(20, StdoutData ''log''), (40, Close (Some 0))]"
    by code_simp
  have s: "parseTofuSummary ''out'' = None" by code_simp
  from log_readback [OF h1 h2 h3] r s show ?thesis
    by (simp add: Let_def chunks_of_def)
qed

text \<open>
  The claim as written fails when the read-back has written something before the timer
  fires: \<^verbatim>\<open>kill\<close> is called, the process closes, and the partial output is the log content.
\<close>

theorem log_timeout_counterexample:
  "spawn (demo_world slow_readback)
     (logReadArgs ''c1'' (logFilePathOf (demo_world slow_readback) ''/workspace/shop/dev'' True))
     = Spawned [(100, StdoutData ''partial log''), (3050, Close None)]
   \<and> kill_called [(100, StdoutData ''partial log''), (3050, Close None)]
   \<and> map_option (map_sum id logFileContent)
       (runCommands (demo_world slow_readback) ''c1'' ''/workspace/shop/dev'' [''tofu plan''] True)
     = Some (Inr ''partial log'')"
  by code_simp

section \<open>The step ledger\<close>

lemma findOne_None: "findOne q ds = None \<longleftrightarrow> (\<forall>d\<in>set ds. \<not> q d)"
  by (auto simp: findOne_def find_None_iff)

lemma findOne_split:
  "findOne q ds = Some d \<Longrightarrow> \<exists>before after. ds = before @ d # after \<and> q d \<and> (\<forall>x\<in>set before. \<not> q x)"
  unfolding findOne_def
proof (induction ds)
  case Nil
  then show ?case by simp
next
  case (Cons x xs)
  show ?case
  proof (cases "q x")
    case True
    with Cons.prems have "x = d" by simp
    with True have "x # xs = [] @ d # xs \<and> q d \<and> (\<forall>y\<in>set []. \<not> q y)" by simp
    then show ?thesis by blast
  next
    case False
    with Cons.prems have "find q xs = Some d" by simp
    from Cons.IH[OF this] obtain before after where
      "xs = before @ d # after" "q d" "\<forall>y\<in>set before. \<not> q y" by blast
    with False have "x # xs = (x # before) @ d # after \<and> q d \<and> (\<forall>y\<in>set (x # before). \<not> q y)"
      by simp
    then show ?thesis by blast
  qed
qed

lemma findOne_at:
  "q d \<Longrightarrow> \<forall>x\<in>set before. \<not> q x \<Longrightarrow> findOne q (before @ d # after) = Some d"
  by (induction before) (simp_all add: findOne_def)

lemma updateOne_at:
  "q d \<Longrightarrow> \<forall>x\<in>set before. \<not> q x \<Longrightarrow>
     updateOne q u (before @ d # after) = (before @ u d # after, 1)"
  by (induction before) simp_all

lemma updateOne_none: "\<forall>x\<in>set ds. \<not> q x \<Longrightarrow> updateOne q u ds = (ds, 0)"
  by (induction ds) simp_all

lemma setFirst_at:
  "p s \<Longrightarrow> \<forall>x\<in>set pre. \<not> p x \<Longrightarrow> setFirst p f (pre @ s # post) = pre @ f s # post"
  by (induction pre) simp_all

lemma list_ex_split:
  "list_ex p xs \<Longrightarrow> \<exists>pre s post. xs = pre @ s # post \<and> p s \<and> (\<forall>x\<in>set pre. \<not> p x)"
  by (metis list_ex_iff split_list_first_prop)

lemma recordInitStep_known:
  assumes "req_deploymentId req = Some did" "did \<noteq> []" "findOne (hasId did) ds = Some d"
  shows "\<exists>before after. ds = before @ d # after \<and> (\<forall>x\<in>set before. \<not> hasId did x) \<and>
     recordInitStep w req p sp r ds =
       (ok_response (obj_lit ([(''command'', JStr ''tofu init''), (''deploymentId'', JStr did),
                               (''deploymentName'', JStr (deploymentName d)),
                               (''logFileContent'', JStr (logFileContent r))] @ result_fields r)),
        before @ d\<lparr>steps := filter (\<lambda>s. step s \<noteq> Init) (steps d) @ [mkStep w Init (fullMessage r) r]\<rparr> # after)"
proof -
  from findOne_split[OF assms(3)] obtain before after where
    s: "ds = before @ d # after" and q: "hasId did d" and n: "\<forall>x\<in>set before. \<not> hasId did x" by blast
  have q1: "hasId did (pullInit d)" using q by (simp add: hasId_def pullInit_def)
  have u1: "updateOne (hasId did) pullInit ds = (before @ pullInit d # after, 1)"
    unfolding s by (rule updateOne_at[OF q n])
  have u2: "updateOne (hasId did) (pushStep s') (before @ pullInit d # after)
            = (before @ pushStep s' (pullInit d) # after, 1)" for s'
    by (rule updateOne_at[OF q1 n])
  have "recordInitStep w req p sp r ds =
       (ok_response (obj_lit ([(''command'', JStr ''tofu init''), (''deploymentId'', JStr did),
                               (''deploymentName'', JStr (deploymentName d)),
                               (''logFileContent'', JStr (logFileContent r))] @ result_fields r)),
        before @ pushStep (mkStep w Init (fullMessage r) r) (pullInit d) # after)"
    using assms by (simp add: recordInitStep_def falsy_def Let_def u1 u2)
  then show ?thesis using s n by (auto simp: pushStep_def pullInit_def)
qed

lemma recordInitStep_unknown:
  assumes "req_deploymentId req = Some did" "did \<noteq> []" "findOne (hasId did) ds = None"
  shows "recordInitStep w req p sp r ds = (error_response 404 ''Deployment not found'', ds)"
  using assms by (simp add: recordInitStep_def falsy_def Let_def)

text \<open>
  C4. With a \<open>deploymentId\<close> that is unknown the init block answers 404 and leaves the ledger
  as it is. With one that is known, two consecutive calls both succeed; after each the
  deployment's steps are its former steps without those of kind init, followed by the new
  init step, so after the second call there is exactly one init step, and it is derived from
  the second result.
\<close>

theorem recordInitStep_idempotent:
  assumes "req_deploymentId req1 = Some did" and "req_deploymentId req2 = Some did" and "did \<noteq> []"
  shows
   "(findOne (hasId did) ds = None \<longrightarrow>
       recordInitStep w1 req1 p1 sp1 r1 ds = (error_response 404 ''Deployment not found'', ds))
  \<and> (\<forall>d. findOne (hasId did) ds = Some d \<longrightarrow>
       (let (resp1, ds1) = recordInitStep w1 req1 p1 sp1 r1 ds;
            (resp2, ds2) = recordInitStep w2 req2 p2 sp2 r2 ds1;
            init2 = \<lparr>step = Init,
                     stepStatus = (if exitCode r2 = Some 0 then Successful else Failed),
                     message = fullMessage r2, stepLogFileContent = logFileContent r2,
                     timestamp = defaultTimestamp w2\<rparr>
        in status resp1 = 200 \<and> status resp2 = 200
         \<and> map_option steps (findOne (hasId did) ds1)
             = Some (filter (\<lambda>s. step s \<noteq> Init) (steps d) @ [mkStep w1 Init (fullMessage r1) r1])
         \<and> map_option steps (findOne (hasId did) ds2)
             = Some (filter (\<lambda>s. step s \<noteq> Init) (steps d) @ [init2])
         \<and> map_option (filter (\<lambda>s. step s = Init) \<circ> steps) (findOne (hasId did) ds2) = Some [init2]))"
proof (intro conjI allI impI)
  assume "findOne (hasId did) ds = None"
  then show "recordInitStep w1 req1 p1 sp1 r1 ds = (error_response 404 ''Deployment not found'', ds)"
    by (rule recordInitStep_unknown[OF assms(1,3)])
next
  fix d
  assume f: "findOne (hasId did) ds = Some d"
  from recordInitStep_known[OF assms(1,3) f, of w1 p1 sp1 r1] obtain before after resp1 where
    n: "\<forall>x\<in>set before. \<not> hasId did x" and
    r1: "recordInitStep w1 req1 p1 sp1 r1 ds =
       (resp1, before @ d\<lparr>steps := filter (\<lambda>s. step s \<noteq> Init) (steps d) @ [mkStep w1 Init (fullMessage r1) r1]\<rparr> # after)"
    and s1: "status resp1 = 200"
    by (auto simp: ok_response_def)
  define d1 where "d1 = d\<lparr>steps := filter (\<lambda>s. step s \<noteq> Init) (steps d) @ [mkStep w1 Init (fullMessage r1) r1]\<rparr>"
  have q: "hasId did d" using findOne_split[OF f] by blast
  have q1: "hasId did d1" using q by (simp add: d1_def hasId_def)
  have f1: "findOne (hasId did) (before @ d1 # after) = Some d1"
    by (rule findOne_at[OF q1 n])
  from recordInitStep_known[OF assms(2,3) f1, of w2 p2 sp2 r2] obtain before' after' resp2 where
    e: "before @ d1 # after = before' @ d1 # after'" and
    n': "\<forall>x\<in>set before'. \<not> hasId did x" and
    r2: "recordInitStep w2 req2 p2 sp2 r2 (before @ d1 # after) =
       (resp2, before' @ d1\<lparr>steps := filter (\<lambda>s. step s \<noteq> Init) (steps d1) @ [mkStep w2 Init (fullMessage r2) r2]\<rparr> # after')"
    and s2: "status resp2 = 200"
    by (auto simp: ok_response_def)
  define d2 where "d2 = d1\<lparr>steps := filter (\<lambda>s. step s \<noteq> Init) (steps d1) @ [mkStep w2 Init (fullMessage r2) r2]\<rparr>"
  have q2: "hasId did d2" using q1 by (simp add: d2_def hasId_def)
  have f2: "findOne (hasId did) (before' @ d2 # after') = Some d2"
    by (rule findOne_at[OF q2 n'])
  have st2: "steps d2 = filter (\<lambda>s. step s \<noteq> Init) (steps d) @ [mkStep w2 Init (fullMessage r2) r2]"
    by (simp add: d2_def d1_def mkStep_def)
  have i2: "filter (\<lambda>s. step s = Init) (steps d2) = [mkStep w2 Init (fullMessage r2) r2]"
    unfolding st2 by (simp add: mkStep_def)
  show "let (resp1, ds1) = recordInitStep w1 req1 p1 sp1 r1 ds;
            (resp2, ds2) = recordInitStep w2 req2 p2 sp2 r2 ds1;
            init2 = \<lparr>step = Init,
                     stepStatus = (if exitCode r2 = Some 0 then Successful else Failed),
                     message = fullMessage r2, stepLogFileContent = logFileContent r2,
                     timestamp = defaultTimestamp w2\<rparr>
        in status resp1 = 200 \<and> status resp2 = 200
         \<and> map_option steps (findOne (hasId did) ds1)
             = Some (filter (\<lambda>s. step s \<noteq> Init) (steps d) @ [mkStep w1 Init (fullMessage r1) r1])
         \<and> map_option steps (findOne (hasId did) ds2)
             = Some (filter (\<lambda>s. step s \<noteq> Init) (steps d) @ [init2])
         \<and> map_option (filter (\<lambda>s. step s = Init) \<circ> steps) (findOne (hasId did) ds2) = Some [init2]"
    using r1 r2 s1 s2 f1 f2 st2 i2
    by (simp add: d1_def[symmetric] d2_def[symmetric] Let_def)
       (simp add: mkStep_def statusOf_def d1_def)
qed


text \<open>
  On the ledger above: an init that fails and then one that succeeds leave the first
  deployment with its three plan steps and one init step, the successful one.
\<close>

theorem recordInitStep_idempotent_witness:
  "map (map (\<lambda>s. (step s, stepStatus s, message s)) \<circ> steps)
     (snd (recordInitStep (demo_world late_stdout) (demo_request ''d-1'')
             \<lparr>proj_projectId = ''p1'', proj_projectName = ''shop''\<rparr> ''dev'' (demo_result 0 ''ok'')
        (snd (recordInitStep (demo_world late_stdout) (demo_request ''d-1'')
                \<lparr>proj_projectId = ''p1'', proj_projectName = ''shop''\<rparr> ''dev''
                (demo_result 1 ''boom'') demo_ledger))))
   = [[(Plan, Failed, ''a''), (Plan, Successful, ''c''), (Plan, Successful, ''d''),
       (Init, Successful, ''ok'')],
      [(Init, Successful, ''e'')]]
   \<and> recordInitStep (demo_world late_stdout) (demo_request ''d-9'')
        \<lparr>proj_projectId = ''p1'', proj_projectName = ''shop''\<rparr> ''dev'' (demo_result 0 ''ok'')
        demo_ledger
      = (error_response 404 ''Deployment not found'', demo_ledger)"
proof -
  have k: "req_deploymentId (demo_request ''d-1'') = Some ''d-1''" "''d-1'' \<noteq> []"
    by (simp_all add: demo_request_def)
  have u: "req_deploymentId (demo_request ''d-9'') = Some ''d-9''" "''d-9'' \<noteq> []"
    by (simp_all add: demo_request_def)
  have n: "findOne (hasId ''d-9'') demo_ledger = None"
    by (simp add: findOne_def hasId_def demo_ledger_def)
  note unknown = recordInitStep_idempotent [OF u(1) u(1) u(2), THEN conjunct1, THEN mp, OF n]
  have f: "findOne (hasId ''d-1'') demo_ledger = Some (hd demo_ledger)"
    by (simp add: findOne_def hasId_def demo_ledger_def)
  note known = recordInitStep_idempotent [OF k(1) k(1) k(2), THEN conjunct2, THEN spec, THEN mp,
      OF f, of "demo_world late_stdout" "\<lparr>proj_projectId = ''p1'', proj_projectName = ''shop''\<rparr>"
      "''dev''" "demo_result 1 ''boom''" "demo_world late_stdout"
      "\<lparr>proj_projectId = ''p1'', proj_projectName = ''shop''\<rparr>" "''dev''" "demo_result 0 ''ok''"]
  have e: "map (map (\<lambda>s. (step s, stepStatus s, message s)) \<circ> steps)
     (snd (recordInitStep (demo_world late_stdout) (demo_request ''d-1'')
             \<lparr>proj_projectId = ''p1'', proj_projectName = ''shop''\<rparr> ''dev'' (demo_result 0 ''ok'')
        (snd (recordInitStep (demo_world late_stdout) (demo_request ''d-1'')
                \<lparr>proj_projectId = ''p1'', proj_projectName = ''shop''\<rparr> ''dev''
                (demo_result 1 ''boom'') demo_ledger))))
   = [[(Plan, Failed, ''a''), (Plan, Successful, ''c''), (Plan, Successful, ''d''),
       (Init, Successful, ''ok'')],
      [(Init, Successful, ''e'')]]"
    by (simp add: recordInitStep_def demo_request_def demo_ledger_def demo_step_def
          demo_result_def demo_world_def falsy_def findOne_def hasId_def pullInit_def
          pushStep_def mkStep_def statusOf_def fullMessage_def or_else_def Let_def)
  from known unknown e show ?thesis by simp
qed

lemma addDeploymentStep_known:
  assumes "findOne (hasId did) ds = Some d"
  shows "\<exists>before after. ds = before @ d # after \<and> (\<forall>x\<in>set before. \<not> hasId did x) \<and>
           addDeploymentStep did s ds = Inr (before @ d\<lparr>steps := steps d @ [s]\<rparr> # after)"
proof -
  from findOne_split[OF assms] obtain before after where
    s: "ds = before @ d # after" and q: "hasId did d" and n: "\<forall>x\<in>set before. \<not> hasId did x"
    by blast
  have "updateOne (hasId did) (pushStep s) ds = (before @ pushStep s d # after, 1)"
    unfolding s by (rule updateOne_at[OF q n])
  with assms have "addDeploymentStep did s ds = Inr (before @ d\<lparr>steps := steps d @ [s]\<rparr> # after)"
    by (simp add: addDeploymentStep_def pushStep_def)
  with s n show ?thesis by blast
qed

lemma addDeploymentStep_steps:
  assumes "findOne (hasId did) ds = Some d"
  shows "\<exists>ds' d'. addDeploymentStep did s ds = Inr ds' \<and> findOne (hasId did) ds' = Some d'
           \<and> steps d' = steps d @ [s] \<and> length ds' = length ds"
proof -
  from addDeploymentStep_known[OF assms, of s] obtain before after where
    s: "ds = before @ d # after" and n: "\<forall>x\<in>set before. \<not> hasId did x" and
    a: "addDeploymentStep did s ds = Inr (before @ d\<lparr>steps := steps d @ [s]\<rparr> # after)" by blast
  have q: "hasId did (d\<lparr>steps := steps d @ [s]\<rparr>)"
    using findOne_split[OF assms] by (auto simp: hasId_def)
  from findOne_at[OF q n] a s show ?thesis by simp
qed

lemma appendAll_steps:
  "findOne (hasId did) ds = Some d \<Longrightarrow>
     \<exists>ds' d'. appendAll did ss ds = Inr ds' \<and> findOne (hasId did) ds' = Some d'
       \<and> steps d' = steps d @ ss \<and> length ds' = length ds"
proof (induction ss arbitrary: ds d)
  case Nil
  then show ?case by simp
next
  case (Cons s ss)
  from addDeploymentStep_steps[OF Cons.prems, of s] obtain ds1 d1 where
    a: "addDeploymentStep did s ds = Inr ds1" and f: "findOne (hasId did) ds1 = Some d1"
    and st: "steps d1 = steps d @ [s]" and l: "length ds1 = length ds" by blast
  from Cons.IH[OF f] obtain ds' d' where
    "appendAll did ss ds1 = Inr ds'" "findOne (hasId did) ds' = Some d'"
    "steps d' = steps d1 @ ss" "length ds' = length ds1" by blast
  with a st l show ?case by simp
qed

text \<open>
  C5. The repository's append fails with NotFound on an unknown deployment. On a known one,
  \<open>N\<close> calls with plan steps all succeed and leave the former steps followed by the \<open>N\<close> new
  ones, in call order: the number of plan steps grows by \<open>N\<close> and nothing is replaced.
\<close>

theorem addDeploymentStep_accumulates:
  "(findOne (hasId did) ds = None \<longrightarrow> addDeploymentStep did s ds = Inl NotFound)
 \<and> (\<forall>d. findOne (hasId did) ds = Some d \<and> (\<forall>x\<in>set ss. step x = Plan) \<longrightarrow>
       (\<exists>ds' d'. appendAll did ss ds = Inr ds' \<and> findOne (hasId did) ds' = Some d'
          \<and> steps d' = steps d @ ss
          \<and> length (filter (\<lambda>x. step x = Plan) (steps d'))
              = length (filter (\<lambda>x. step x = Plan) (steps d)) + length ss))"
proof (intro conjI allI impI)
  assume "findOne (hasId did) ds = None"
  then show "addDeploymentStep did s ds = Inl NotFound"
    by (simp add: addDeploymentStep_def)
next
  fix d
  assume h: "findOne (hasId did) ds = Some d \<and> (\<forall>x\<in>set ss. step x = Plan)"
  then have f: "findOne (hasId did) ds = Some d" and pl: "\<forall>x\<in>set ss. step x = Plan" by simp_all
  from appendAll_steps[OF f, of ss] obtain ds' d' where
    a: "appendAll did ss ds = Inr ds'" "findOne (hasId did) ds' = Some d'"
    and st: "steps d' = steps d @ ss" by blast
  from pl have "filter (\<lambda>x. step x = Plan) ss = ss" by (simp add: filter_id_conv)
  with st have "length (filter (\<lambda>x. step x = Plan) (steps d'))
              = length (filter (\<lambda>x. step x = Plan) (steps d)) + length ss" by simp
  with a st show "\<exists>ds' d'. appendAll did ss ds = Inr ds' \<and> findOne (hasId did) ds' = Some d'
          \<and> steps d' = steps d @ ss
          \<and> length (filter (\<lambda>x. step x = Plan) (steps d'))
              = length (filter (\<lambda>x. step x = Plan) (steps d)) + length ss" by blast
qed

text \<open>Two plan steps appended to the first deployment of the ledger above, and an unknown id.\<close>

theorem addDeploymentStep_accumulates_witness:
  "map_sum id (map (map step \<circ> steps))
     (appendAll ''d-1'' [demo_step Plan Failed ''x'', demo_step Plan Successful ''y''] demo_ledger)
     = Inr [[Plan, Init, Plan, Plan, Plan, Plan], [Init]]
   \<and> addDeploymentStep ''d-9'' (demo_step Plan Failed ''x'') demo_ledger = Inl NotFound"
proof -
  have n: "findOne (hasId ''d-9'') demo_ledger = None"
    by (simp add: findOne_def hasId_def demo_ledger_def)
  have f: "findOne (hasId ''d-1'') demo_ledger = Some (hd demo_ledger)
           \<and> (\<forall>x\<in>set [demo_step Plan Failed ''x'', demo_step Plan Successful ''y'']. step x = Plan)"
    by (simp add: findOne_def hasId_def demo_ledger_def demo_step_def)
  note unknown = addDeploymentStep_accumulates [THEN conjunct1, THEN mp, OF n]
  note known = addDeploymentStep_accumulates [THEN conjunct2, THEN spec, THEN mp, OF f]
  have e: "map_sum id (map (map step \<circ> steps))
     (appendAll ''d-1'' [demo_step Plan Failed ''x'', demo_step Plan Successful ''y''] demo_ledger)
     = Inr [[Plan, Init, Plan, Plan, Plan, Plan], [Init]]"
    by (simp add: addDeploymentStep_def findOne_def hasId_def demo_ledger_def demo_step_def
          pushStep_def)
  from known unknown [of "demo_step Plan Failed ''x''"] e show ?thesis by simp
qed

lemma tofuPlanDeny_checks:
  assumes "req_deploymentId req = Some did" "did \<noteq> []" "findProject w (req_projectId req) = Some p"
  shows "tofuPlanDeny w req ds =
     (case updateOne (hasPlanStep did) (cancelFirstPlan (now w)) ds of
        (ds', matchedCount) \<Rightarrow>
          if matchedCount = 0 then (error_response 404 ''Plan step not found for deployment'', ds')
          else (ok_response (obj_lit [(''success'', JBool True),
                                      (''message'', JStr ''Plan Step Cancelled by User''),
                                      (''deploymentId'', JStr did)]), ds'))"
  using assms by (simp add: tofuPlanDeny_def falsy_def)

lemma tofuPlanDeny_no_plan:
  assumes "req_deploymentId req = Some did" "did \<noteq> []" "findProject w (req_projectId req) = Some p"
    and "\<forall>d\<in>set ds. \<not> hasPlanStep did d"
  shows "tofuPlanDeny w req ds = (error_response 404 ''Plan step not found for deployment'', ds)"
  by (simp add: tofuPlanDeny_checks[OF assms(1-3)] updateOne_none[OF assms(4)])

lemma tofuPlanDeny_first_plan:
  assumes "req_deploymentId req = Some did" "did \<noteq> []" "findProject w (req_projectId req) = Some p"
    and "ds = before @ d # after" "\<forall>x\<in>set before. deploymentId x \<noteq> did" "deploymentId d = did"
    and "steps d = pre @ s # post" "\<forall>x\<in>set pre. step x \<noteq> Plan" "step s = Plan"
  shows "tofuPlanDeny w req ds =
     (ok_response (obj_lit [(''success'', JBool True),
                            (''message'', JStr ''Plan Step Cancelled by User''),
                            (''deploymentId'', JStr did)]),
      before @ d\<lparr>steps := pre @ s\<lparr>stepStatus := Cancelled, timestamp := Some (now w)\<rparr> # post\<rparr> # after)"
proof -
  have q: "hasPlanStep did d" using assms(6,7,9) by (simp add: hasPlanStep_def)
  have n: "\<forall>x\<in>set before. \<not> hasPlanStep did x" using assms(5) by (simp add: hasPlanStep_def)
  have c: "cancelFirstPlan (now w) d
        = d\<lparr>steps := pre @ s\<lparr>stepStatus := Cancelled, timestamp := Some (now w)\<rparr> # post\<rparr>"
    unfolding cancelFirstPlan_def assms(7)
    using setFirst_at[of "\<lambda>x. step x = Plan" s pre, OF assms(9)] assms(8) by simp
  show ?thesis
    unfolding tofuPlanDeny_checks[OF assms(1-3)] assms(4) updateOne_at[OF q n] c by simp
qed

text \<open>
  C6. For a request that names a deployment and an existing project: the cancel handler
  answers 404 and leaves the ledger unchanged when the deployment is unknown, and when no
  document with that id has a plan step. When the deployment has a plan step the handler
  answers 200; the ledger and the step sequence keep their lengths, the kinds of the steps
  are as before, and a step that was of kind plan is now cancelled with the current time.
\<close>

theorem tofuPlanDeny_cancel:
  assumes "req_deploymentId req = Some did" and "did \<noteq> []"
    and "findProject w (req_projectId req) = Some p"
  shows
   "(findOne (hasId did) ds = None \<longrightarrow>
       tofuPlanDeny w req ds = (error_response 404 ''Plan step not found for deployment'', ds))
  \<and> ((\<forall>d\<in>set ds. deploymentId d = did \<longrightarrow> \<not> list_ex (\<lambda>s. step s = Plan) (steps d)) \<longrightarrow>
       tofuPlanDeny w req ds = (error_response 404 ''Plan step not found for deployment'', ds))
  \<and> (\<forall>d. findOne (hasId did) ds = Some d \<and> list_ex (\<lambda>s. step s = Plan) (steps d) \<longrightarrow>
       (\<exists>resp ds' d' i.
          tofuPlanDeny w req ds = (resp, ds') \<and> status resp = 200 \<and> length ds' = length ds
        \<and> findOne (hasId did) ds' = Some d'
        \<and> length (steps d') = length (steps d)
        \<and> map step (steps d') = map step (steps d)
        \<and> i < length (steps d) \<and> step (steps d ! i) = Plan
        \<and> stepStatus (steps d' ! i) = Cancelled \<and> timestamp (steps d' ! i) = Some (now w)))"
proof (intro conjI allI impI)
  assume "findOne (hasId did) ds = None"
  then have "\<forall>d\<in>set ds. \<not> hasPlanStep did d"
    by (auto simp: findOne_None hasId_def hasPlanStep_def)
  then show "tofuPlanDeny w req ds = (error_response 404 ''Plan step not found for deployment'', ds)"
    by (rule tofuPlanDeny_no_plan[OF assms])
next
  assume "\<forall>d\<in>set ds. deploymentId d = did \<longrightarrow> \<not> list_ex (\<lambda>s. step s = Plan) (steps d)"
  then have "\<forall>d\<in>set ds. \<not> hasPlanStep did d"
    by (auto simp: hasPlanStep_def)
  then show "tofuPlanDeny w req ds = (error_response 404 ''Plan step not found for deployment'', ds)"
    by (rule tofuPlanDeny_no_plan[OF assms])
next
  fix d
  assume h: "findOne (hasId did) ds = Some d \<and> list_ex (\<lambda>s. step s = Plan) (steps d)"
  from findOne_split[of "hasId did" ds d] h obtain before after where
    s: "ds = before @ d # after" and q: "deploymentId d = did"
    and n: "\<forall>x\<in>set before. deploymentId x \<noteq> did" by (auto simp: hasId_def)
  from list_ex_split[of "\<lambda>s. step s = Plan" "steps d"] h obtain pre sp post where
    st: "steps d = pre @ sp # post" and ps: "step sp = Plan" and np: "\<forall>x\<in>set pre. step x \<noteq> Plan"
    by blast
  define d' where "d' = d\<lparr>steps := pre @ sp\<lparr>stepStatus := Cancelled, timestamp := Some (now w)\<rparr> # post\<rparr>"
  note r = tofuPlanDeny_first_plan[OF assms s n q st np ps]
  have q': "hasId did d'" using q by (simp add: d'_def hasId_def)
  have n': "\<forall>x\<in>set before. \<not> hasId did x" using n by (simp add: hasId_def)
  have f: "findOne (hasId did) (before @ d' # after) = Some d'" by (rule findOne_at[OF q' n'])
  have "tofuPlanDeny w req ds = (ok_response (obj_lit [(''success'', JBool True),
                            (''message'', JStr ''Plan Step Cancelled by User''),
                            (''deploymentId'', JStr did)]), before @ d' # after)"
    using r by (simp add: d'_def)
  moreover have "status (ok_response (obj_lit [(''success'', JBool True),
                            (''message'', JStr ''Plan Step Cancelled by User''),
                            (''deploymentId'', JStr did)])) = 200" by (simp add: ok_response_def)
  moreover have "length (before @ d' # after) = length ds" using s by simp
  moreover have "length (steps d') = length (steps d)" by (simp add: d'_def st)
  moreover have "map step (steps d') = map step (steps d)" by (simp add: d'_def st)
  moreover have "length pre < length (steps d)" by (simp add: st)
  moreover have "step (steps d ! length pre) = Plan" by (simp add: st ps)
  moreover have "stepStatus (steps d' ! length pre) = Cancelled"
     "timestamp (steps d' ! length pre) = Some (now w)" by (simp_all add: d'_def)
  ultimately show "\<exists>resp ds' d' i.
          tofuPlanDeny w req ds = (resp, ds') \<and> status resp = 200 \<and> length ds' = length ds
        \<and> findOne (hasId did) ds' = Some d'
        \<and> length (steps d') = length (steps d)
        \<and> map step (steps d') = map step (steps d)
        \<and> i < length (steps d) \<and> step (steps d ! i) = Plan
        \<and> stepStatus (steps d' ! i) = Cancelled \<and> timestamp (steps d' ! i) = Some (now w)"
    using f by blast
qed

text \<open>
  On the ledger above: cancelling for the first deployment succeeds and keeps its four
  steps; cancelling for the second, which has no plan step, and for an unknown deployment
  answers 404 and changes nothing.
\<close>

theorem tofuPlanDeny_cancel_witness:
  "status (fst (tofuPlanDeny (demo_world late_stdout) (demo_request ''d-1'') demo_ledger)) = 200
   \<and> map (map (\<lambda>s. (step s, stepStatus s)) \<circ> steps)
       (snd (tofuPlanDeny (demo_world late_stdout) (demo_request ''d-1'') demo_ledger))
     = [[(Plan, Cancelled), (Init, Failed), (Plan, Successful), (Plan, Successful)],
        [(Init, Successful)]]
   \<and> tofuPlanDeny (demo_world late_stdout) (demo_request ''d-2'') demo_ledger
     = (error_response 404 ''Plan step not found for deployment'', demo_ledger)
   \<and> tofuPlanDeny (demo_world late_stdout) (demo_request ''d-9'') demo_ledger
     = (error_response 404 ''Plan step not found for deployment'', demo_ledger)"
proof -
  have p: "findProject (demo_world late_stdout) (req_projectId (demo_request did))
           = Some \<lparr>proj_projectId = ''p1'', proj_projectName = ''shop''\<rparr>" for did
    by (simp add: findProject_def findOne_def demo_world_def demo_request_def)
  have r: "req_deploymentId (demo_request did) = Some did" for did
    by (simp add: demo_request_def)
  have n9: "findOne (hasId ''d-9'') demo_ledger = None"
    by (simp add: findOne_def hasId_def demo_ledger_def)
  have n2: "\<forall>d\<in>set demo_ledger. deploymentId d = ''d-2''
               \<longrightarrow> \<not> list_ex (\<lambda>s. step s = Plan) (steps d)"
    by (simp add: demo_ledger_def demo_step_def)
  have f1: "findOne (hasId ''d-1'') demo_ledger = Some (hd demo_ledger)
            \<and> list_ex (\<lambda>s. step s = Plan) (steps (hd demo_ledger))"
    by (simp add: findOne_def hasId_def demo_ledger_def demo_step_def)
  have ne: "''d-1'' \<noteq> []" "''d-2'' \<noteq> []" "''d-9'' \<noteq> []" by simp_all
  note a = tofuPlanDeny_cancel [OF r ne(3) p, THEN conjunct1, THEN mp, OF n9]
  note b = tofuPlanDeny_cancel [OF r ne(2) p, THEN conjunct2, THEN conjunct1, THEN mp, OF n2]
  note c = tofuPlanDeny_cancel [OF r ne(1) p, THEN conjunct2, THEN conjunct2, THEN spec, THEN mp,
      OF f1]
  have e: "map (map (\<lambda>s. (step s, stepStatus s)) \<circ> steps)
       (snd (tofuPlanDeny (demo_world late_stdout) (demo_request ''d-1'') demo_ledger))
     = [[(Plan, Cancelled), (Init, Failed), (Plan, Successful), (Plan, Successful)],
        [(Init, Successful)]]"
    by (simp add: tofuPlanDeny_def falsy_def demo_request_def findProject_def findOne_def
          demo_world_def demo_ledger_def demo_step_def hasPlanStep_def cancelFirstPlan_def
          Let_def)
  from c have "status (fst (tofuPlanDeny (demo_world late_stdout) (demo_request ''d-1'')
                 demo_ledger)) = 200"
    by auto
  with a b e show ?thesis by simp
qed

text \<open>
  C10. When the deployment's steps are \<open>pre @ s # post\<close> with \<open>s\<close> the first of kind plan,
  the cancel handler leaves the ledger as it was but for the status and the timestamp of
  \<open>s\<close>: the steps before it, the steps after it (later plan steps among them), the other
  fields of the deployment and the other deployments are unchanged.
\<close>

theorem tofuPlanDeny_frame:
  assumes "req_deploymentId req = Some did" and "did \<noteq> []"
    and "findProject w (req_projectId req) = Some p"
    and "ds = before @ d # after" and "\<forall>x\<in>set before. deploymentId x \<noteq> did"
    and "deploymentId d = did"
    and "steps d = pre @ s # post" and "\<forall>x\<in>set pre. step x \<noteq> Plan" and "step s = Plan"
  shows "snd (tofuPlanDeny w req ds) =
           before @ d\<lparr>steps := pre @ s\<lparr>stepStatus := Cancelled, timestamp := Some (now w)\<rparr> # post\<rparr>
             # after"
  by (simp add: tofuPlanDeny_first_plan[OF assms])

text \<open>
  On the ledger above the first deployment has three plan steps: only the first of them
  changes.
\<close>

theorem tofuPlanDeny_frame_witness:
  "snd (tofuPlanDeny (demo_world late_stdout) (demo_request ''d-1'') demo_ledger)
     = [(hd demo_ledger)\<lparr>steps :=
           [(demo_step Plan Failed ''a'')\<lparr>stepStatus := Cancelled, timestamp := Some 1000\<rparr>,
            demo_step Init Failed ''b'', demo_step Plan Successful ''c'',
            demo_step Plan Successful ''d'']\<rparr>,
        demo_ledger ! 1]"
proof -
  have p: "findProject (demo_world late_stdout) (req_projectId (demo_request ''d-1''))
           = Some \<lparr>proj_projectId = ''p1'', proj_projectName = ''shop''\<rparr>"
    by (simp add: findProject_def findOne_def demo_world_def demo_request_def)
  have r: "req_deploymentId (demo_request ''d-1'') = Some ''d-1''"
    by (simp add: demo_request_def)
  have ne: "''d-1'' \<noteq> []" by simp
  have l: "demo_ledger = [] @ hd demo_ledger # [demo_ledger ! 1]"
    by (simp add: demo_ledger_def)
  have b: "\<forall>x\<in>set []. deploymentId x \<noteq> ''d-1''" by simp
  have i: "deploymentId (hd demo_ledger) = ''d-1''" by (simp add: demo_ledger_def)
  have st: "steps (hd demo_ledger) = [] @ demo_step Plan Failed ''a''
              # [demo_step Init Failed ''b'', demo_step Plan Successful ''c'',
                 demo_step Plan Successful ''d'']"
    by (simp add: demo_ledger_def)
  have pr: "\<forall>x\<in>set []. step x \<noteq> Plan" by simp
  have k: "step (demo_step Plan Failed ''a'') = Plan" by (simp add: demo_step_def)
  have t: "now (demo_world late_stdout) = 1000" by (simp add: demo_world_def)
  from tofuPlanDeny_frame [OF r ne p l b i st pr k] t show ?thesis by simp
qed

section \<open>The handlers: exit codes\<close>

lemma tofuPlan_shared:
  "tofuPlan = stepHandler ''tofu plan -input=false -no-color'' Plan fullMessage planReply"
  by (intro ext) (simp add: tofuPlan_def stepHandler_def)

lemma tofuApply_shared:
  "tofuApply = stepHandler ''tofu apply -auto-approve -input=false -no-color'' Apply
                 (\<lambda>result. or_else (stdout result) (stderr result)) (commandReply ''tofu apply'')"
  by (intro ext) (simp add: tofuApply_def stepHandler_def)

lemma tofuDestroy_shared:
  "tofuDestroy = stepHandler ''tofu destroy -auto-approve -input=false -no-color'' Destroy
                   fullMessage (commandReply ''tofu destroy'')"
  by (intro ext) (simp add: tofuDestroy_def stepHandler_def)












section \<open>The handlers: response shapes\<close>

lemma selectContainer_error: "selectContainer w = Inl r \<Longrightarrow> status r = 500"
  by (auto simp: selectContainer_def error_response_def split: option.splits if_splits list.splits)

lemma stepHandler_ok:
  assumes "stepHandler cmd kind msgOf reply w req ds = Some (resp, ds')" "status resp = 200"
  shows "\<exists>did result. body resp = reply did result"
proof -
  from assms obtain did result where "resp = ok_response (reply did result)"
    by (auto simp: stepHandler_def Let_def error_response_def
             dest: selectContainer_error split: if_splits option.splits sum.splits)
  then have "body resp = reply did result" by (simp add: ok_response_def)
  then show ?thesis by blast
qed

lemma keys_commandReply:
  "keys_of (commandReply command did result) =
     [''command'', ''deploymentId'', ''logFileContent'', ''exitCode'', ''stdout'', ''stderr'',
      ''combined'', ''summary'']"
  by (simp add: commandReply_def obj_lit_def result_fields_def keys_of_def)

lemma keys_planReply:
  "keys_of (planReply did result) =
     [''stepName'', ''humanReadable'', ''exitCode'', ''stderr'', ''logFileContent'', ''rawFormat'']"
  by (simp add: planReply_def obj_lit_def keys_of_def)

lemma humanReadable_planReply:
  "map_option keys_of (get_field ''humanReadable'' (planReply did result))
     = Some [''raw'', ''summary'']"
  by (simp add: planReply_def obj_lit_def keys_of_def get_field_def)

lemma recordInitStep_ok:
  assumes "recordInitStep w req p sp result ds = (resp, ds')" "status resp = 200"
  shows "keys_of (body resp) =
     [''command'', ''deploymentId'', ''deploymentName'', ''logFileContent'', ''exitCode'',
      ''stdout'', ''stderr'', ''combined'', ''summary'']"
  using assms
  by (auto simp: recordInitStep_def Let_def error_response_def ok_response_def
                 obj_lit_def result_fields_def keys_of_def
           split: if_splits option.splits prod.splits)

lemma tofuInit_ok:
  assumes "tofuInit w req ds = Some (resp, ds')" "status resp = 200"
  shows "keys_of (body resp) =
     [''command'', ''deploymentId'', ''deploymentName'', ''logFileContent'', ''exitCode'',
      ''stdout'', ''stderr'', ''combined'', ''summary'']"
proof -
  from assms obtain p sp result where "recordInitStep w req p sp result ds = (resp, ds')"
    by (auto simp: tofuInit_def error_response_def dest: selectContainer_error
             split: if_splits option.splits sum.splits)
  from recordInitStep_ok[OF this assms(2)] show ?thesis .
qed

lemma tofuPlanDeny_ok:
  assumes "tofuPlanDeny w req ds = (resp, ds')" "status resp = 200"
  shows "keys_of (body resp) = [''success'', ''message'', ''deploymentId'']"
  using assms
  by (auto simp: tofuPlanDeny_def Let_def error_response_def ok_response_def obj_lit_def
                 keys_of_def
           split: if_splits option.splits prod.splits)

text \<open>
  C9, as the code has it. A response with status 200 has these keys, in this order: from
  init \<open>command\<close>, \<open>deploymentId\<close>, \<open>deploymentName\<close>, \<open>logFileContent\<close>, \<open>exitCode\<close>, \<open>stdout\<close>,
  \<open>stderr\<close>, \<open>combined\<close>, \<open>summary\<close>; from apply and destroy the same without
  \<open>deploymentName\<close>; from plan \<open>stepName\<close>, \<open>humanReadable\<close> (an object with the keys \<open>raw\<close>
  and \<open>summary\<close>), \<open>exitCode\<close>, \<open>stderr\<close>, \<open>logFileContent\<close>, \<open>rawFormat\<close>; from cancel
  \<open>success\<close>, \<open>message\<close>, \<open>deploymentId\<close>.
\<close>

theorem response_shapes:
  "(\<forall>resp ds'. tofuInit w req ds = Some (resp, ds') \<and> status resp = 200 \<longrightarrow>
      keys_of (body resp) =
        [''command'', ''deploymentId'', ''deploymentName'', ''logFileContent'', ''exitCode'',
         ''stdout'', ''stderr'', ''combined'', ''summary''])
 \<and> (\<forall>resp ds'. tofuApply w req ds = Some (resp, ds') \<and> status resp = 200 \<longrightarrow>
      keys_of (body resp) =
        [''command'', ''deploymentId'', ''logFileContent'', ''exitCode'', ''stdout'',
         ''stderr'', ''combined'', ''summary''])
 \<and> (\<forall>resp ds'. tofuDestroy w req ds = Some (resp, ds') \<and> status resp = 200 \<longrightarrow>
      keys_of (body resp) =
        [''command'', ''deploymentId'', ''logFileContent'', ''exitCode'', ''stdout'',
         ''stderr'', ''combined'', ''summary''])
 \<and> (\<forall>resp ds'. tofuPlan w req ds = Some (resp, ds') \<and> status resp = 200 \<longrightarrow>
      keys_of (body resp) =
        [''stepName'', ''humanReadable'', ''exitCode'', ''stderr'', ''logFileContent'',
         ''rawFormat'']
      \<and> map_option keys_of (get_field ''humanReadable'' (body resp))
          = Some [''raw'', ''summary''])
 \<and> (\<forall>resp ds'. tofuPlanDeny w req ds = (resp, ds') \<and> status resp = 200 \<longrightarrow>
      keys_of (body resp) = [''success'', ''message'', ''deploymentId''])"
proof (intro conjI allI impI)
  fix resp ds'
  assume "tofuInit w req ds = Some (resp, ds') \<and> status resp = 200"
  then show "keys_of (body resp) =
        [''command'', ''deploymentId'', ''deploymentName'', ''logFileContent'', ''exitCode'',
         ''stdout'', ''stderr'', ''combined'', ''summary'']"
    using tofuInit_ok by blast
next
  fix resp ds'
  assume "tofuApply w req ds = Some (resp, ds') \<and> status resp = 200"
  then obtain did result where "body resp = commandReply ''tofu apply'' did result"
    unfolding tofuApply_shared using stepHandler_ok by blast
  then show "keys_of (body resp) =
        [''command'', ''deploymentId'', ''logFileContent'', ''exitCode'', ''stdout'',
         ''stderr'', ''combined'', ''summary'']"
    by (simp add: keys_commandReply)
next
  fix resp ds'
  assume "tofuDestroy w req ds = Some (resp, ds') \<and> status resp = 200"
  then obtain did result where "body resp = commandReply ''tofu destroy'' did result"
    unfolding tofuDestroy_shared using stepHandler_ok by blast
  then show "keys_of (body resp) =
        [''command'', ''deploymentId'', ''logFileContent'', ''exitCode'', ''stdout'',
         ''stderr'', ''combined'', ''summary'']"
    by (simp add: keys_commandReply)
next
  fix resp ds'
  assume "tofuPlan w req ds = Some (resp, ds') \<and> status resp = 200"
  then obtain did result where b: "body resp = planReply did result"
    unfolding tofuPlan_shared using stepHandler_ok by blast
  from b show "keys_of (body resp) =
        [''stepName'', ''humanReadable'', ''exitCode'', ''stderr'', ''logFileContent'',
         ''rawFormat'']"
    by (simp add: keys_planReply)
  from b show "map_option keys_of (get_field ''humanReadable'' (body resp))
          = Some [''raw'', ''summary'']"
    by (simp add: humanReadable_planReply)
next
  fix resp ds'
  assume "tofuPlanDeny w req ds = (resp, ds') \<and> status resp = 200"
  then show "keys_of (body resp) = [''success'', ''message'', ''deploymentId'']"
    using tofuPlanDeny_ok by blast
qed

text \<open>An apply, and a cancel, on the ledger above.\<close>

theorem response_shapes_witness:
  "map_option (keys_of \<circ> body \<circ> fst)
     (tofuApply (demo_world (exits_with (Some 1))) (demo_request ''d-2'') demo_ledger)
     = Some [''command'', ''deploymentId'', ''logFileContent'', ''exitCode'', ''stdout'',
             ''stderr'', ''combined'', ''summary'']
   \<and> keys_of (body (fst (tofuPlanDeny (demo_world plan_ok) (demo_request ''d-1'') demo_ledger)))
     = [''success'', ''message'', ''deploymentId'']"
proof -
  have a: "map_option (status \<circ> fst)
             (tofuApply (demo_world (exits_with (Some 1))) (demo_request ''d-2'') demo_ledger)
           = Some 200"
    by code_simp
  then obtain resp ds' where
    r: "tofuApply (demo_world (exits_with (Some 1))) (demo_request ''d-2'') demo_ledger
          = Some (resp, ds')" and st: "status resp = 200"
    by (cases "tofuApply (demo_world (exits_with (Some 1))) (demo_request ''d-2'') demo_ledger")
       auto
  have c: "status (fst (tofuPlanDeny (demo_world plan_ok) (demo_request ''d-1'') demo_ledger))
           = 200"
    by code_simp
  obtain resp2 ds2 where
    r2: "tofuPlanDeny (demo_world plan_ok) (demo_request ''d-1'') demo_ledger = (resp2, ds2)"
    by (cases "tofuPlanDeny (demo_world plan_ok) (demo_request ''d-1'') demo_ledger")
  with c have st2: "status resp2 = 200" by simp
  note t = response_shapes [of "demo_world (exits_with (Some 1))" "demo_request ''d-2''"
      demo_ledger]
  note t2 = response_shapes [of "demo_world plan_ok" "demo_request ''d-1''" demo_ledger]
  from t r st have "keys_of (body resp) =
      [''command'', ''deploymentId'', ''logFileContent'', ''exitCode'', ''stdout'',
       ''stderr'', ''combined'', ''summary'']"
    by blast
  moreover from t2 r2 st2 have "keys_of (body resp2) = [''success'', ''message'', ''deploymentId'']"
    by blast
  ultimately show ?thesis using r r2 by simp
qed

text \<open>The claim as written fails for plan: its response has no key \<open>command\<close>.\<close>

theorem plan_response_counterexample:
  "map_option (status \<circ> fst)
     (tofuPlan (demo_world plan_ok) (demo_request ''d-1'') demo_ledger) = Some 200
   \<and> map_option (keys_of \<circ> body \<circ> fst)
       (tofuPlan (demo_world plan_ok) (demo_request ''d-1'') demo_ledger)
     = Some [''stepName'', ''humanReadable'', ''exitCode'', ''stderr'', ''logFileContent'',
             ''rawFormat'']"
  by code_simp

end
